theory Spec2Isabelle
  imports Main "HOL-Library.AList" "HOL-Library.Sublist"
begin

section \<open>Python strings\<close>

text \<open>
  \<^verbatim>\<open>s.split(c)\<close> for a one-character separator: the pieces between the separators, in
  order. The result is never empty (\<^verbatim>\<open>''.split('/') == ['']\<close>), so \<^verbatim>\<open>[0]\<close> and
  \<^verbatim>\<open>[-1]\<close> never raise on it.
\<close>

fun split :: "char \<Rightarrow> string \<Rightarrow> string list" where
  "split c [] = [[]]"
| "split c (x # xs) =
     (if x = c then [] # split c xs
      else (case split c xs of [] \<Rightarrow> [[x]] | p # ps \<Rightarrow> (x # p) # ps))"

text \<open>\<^verbatim>\<open>sub in s\<close> on strings: \<open>sub\<close> occurs in \<open>s\<close> as a contiguous piece.\<close>

fun contains :: "string \<Rightarrow> string \<Rightarrow> bool" where
  "contains [] sub = (sub = [])"
| "contains (x # xs) sub = (prefix sub (x # xs) \<or> contains xs sub)"

section \<open>The filename of a postbox document\<close>

text \<open>
  Line 144 of \<^verbatim>\<open>dkbscraper.py\<close>:
  \<^verbatim>\<open>filename = url.split('/')[-1].split('?')[0] + '.pdf'\<close>
\<close>

definition filename_of :: "string \<Rightarrow> string" where
  "filename_of url = hd (split CHR ''?'' (last (split CHR ''/'' url))) @ ''.pdf''"

section \<open>Parsed markup\<close>

text \<open>
  The tree a markup parser (BeautifulSoup) hands to the scraper: a tag with its
  attributes and children, or a string. The parser itself is an external collaborator
  and stays a parameter (see \<open>env\<close> below); the queries the scraper runs on the tree
  are modelled here.
\<close>

datatype node = Tag string "(string \<times> string) list" "node list" | NavStr string

fun attr :: "node \<Rightarrow> string \<Rightarrow> string option" where
  "attr (Tag n as cs) k = map_of as k"
| "attr (NavStr s) k = None"

fun is_tag :: "string \<Rightarrow> node \<Rightarrow> bool" where
  "is_tag name (Tag n as cs) = (n = name)"
| "is_tag name (NavStr s) = False"

definition has_attr :: "string \<Rightarrow> string \<Rightarrow> node \<Rightarrow> bool" where
  "has_attr k v x = (attr x k = Some v)"

text \<open>
  \<^verbatim>\<open>tag.find(...)\<close>: the first proper descendant, in document order, that matches;
  it is returned with its parent, which is what \<^verbatim>\<open>find_parent()\<close> gives on it.
\<close>

fun find_in :: "(node \<Rightarrow> bool) \<Rightarrow> node \<Rightarrow> (node \<times> node) option"
  and find_list :: "(node \<Rightarrow> bool) \<Rightarrow> node \<Rightarrow> node list \<Rightarrow> (node \<times> node) option" where
  "find_in P (NavStr s) = None"
| "find_in P (Tag n as cs) = find_list P (Tag n as cs) cs"
| "find_list P par [] = None"
| "find_list P par (c # cs) =
     (if P c then Some (par, c)
      else (case find_in P c of Some r \<Rightarrow> Some r | None \<Rightarrow> find_list P par cs))"

definition find :: "(node \<Rightarrow> bool) \<Rightarrow> node \<Rightarrow> node option" where
  "find P x = map_option snd (find_in P x)"

text \<open>\<^verbatim>\<open>tag.find_all(...)\<close> (alias \<^verbatim>\<open>findChildren\<close>): every matching proper descendant, in document order.\<close>

fun find_all :: "(node \<Rightarrow> bool) \<Rightarrow> node \<Rightarrow> node list"
  and find_all_list :: "(node \<Rightarrow> bool) \<Rightarrow> node list \<Rightarrow> node list" where
  "find_all P (NavStr s) = []"
| "find_all P (Tag n as cs) = find_all_list P cs"
| "find_all_list P [] = []"
| "find_all_list P (c # cs) = (if P c then [c] else []) @ find_all P c @ find_all_list P cs"

text \<open>\<^verbatim>\<open>tag.text\<close>: all strings below the tag, concatenated.\<close>

fun get_text :: "node \<Rightarrow> string"
  and get_text_list :: "node list \<Rightarrow> string" where
  "get_text (NavStr s) = s"
| "get_text (Tag n as cs) = get_text_list cs"
| "get_text_list [] = []"
| "get_text_list (c # cs) = get_text c @ get_text_list cs"

section \<open>The session and its collaborators\<close>

text \<open>
  Exceptions are values. \<open>RuntimeError\<close> carries its message, as the four
  \<^verbatim>\<open>raise RuntimeError(...)\<close> of the source differ only in it; the others are what
  Python raises by itself: \<open>AttributeError\<close> (an attribute of \<^verbatim>\<open>None\<close>, or an attribute
  of the session that was never set), \<open>TypeError\<close> (subscript of \<^verbatim>\<open>None\<close>, \<^verbatim>\<open>str + None\<close>),
  \<open>KeyError\<close> (a missing attribute of a tag, a missing form field),
  \<open>AssertionError\<close>, \<open>OSError\<close> (a file that cannot be created or read),
  \<open>FileExistsError\<close> (no free temporary name), \<open>ConnectionError\<close> (the transport)
  and \<open>ParserError\<close> (lxml on a document that is empty).
\<close>

datatype error =
  RuntimeError string | AttributeError | TypeError | KeyError | AssertionError
  | OSError | FileExistsError | ConnectionError | ParserError

datatype request = GET string | POST string "(string \<times> string) list"

record response =
  status_code :: nat
  rtext :: string

text \<open>A form as \<^verbatim>\<open>lxml.html\<close> exposes it: its \<^verbatim>\<open>action\<close> (\<^verbatim>\<open>None\<close> when the attribute is absent) and its \<^verbatim>\<open>fields\<close>, name to value.\<close>

record form =
  action :: "string option"
  form_fields :: "(string \<times> string) list"

text \<open>
  The external collaborators: the HTTP transport (the answer may depend on the requests
  sent before, which is how the cookie session shows), the two markup parsers (the one
  that gives the forms of a page may raise), the
  password prompt and the file system's rules (which paths are directories, where a file
  can be created, which temporary name is handed out given what exists, and whether
  writing a text to an opened file fails: with which exception, leaving what in the
  file).
\<close>

record env =
  http :: "request list \<Rightarrow> request \<Rightarrow> error + response"
  soup :: "string \<Rightarrow> node"
  forms :: "string \<Rightarrow> error + form list"
  getpass :: string
  is_dir :: "string \<Rightarrow> bool"
  creatable :: "string \<Rightarrow> bool"
  mkstemp :: "(string \<Rightarrow> bool) \<Rightarrow> string"
  write_failure :: "string \<Rightarrow> string \<Rightarrow> (error \<times> string) option"

text \<open>
  The attributes of a \<^verbatim>\<open>DKBSession\<close> (\<open>None\<close>: the attribute was never set) together
  with what the session has done to the world: the requests sent, whether the HTTP
  client was closed, the files on disk with the log of what was done to them (a file
  given a content, a file removed), the lines printed and the pauses taken.
\<close>

datatype fs_op = Write string string | Unlink string

record state =
  logout_url :: "string option"
  postbox_url :: "string option"
  umsatz_url :: "string option"
  accounts :: "(string \<times> string) list option"
  verbose :: bool
  closed :: bool
  sent :: "request list"
  files :: "string \<Rightarrow> string option"
  fslog :: "fs_op list"
  stdout :: "string list"
  sleeps :: "nat list"

definition base_url :: string where
  "base_url = ''https://www.dkb.de''"

definition login_url :: string where
  "login_url = ''/-?$javascript=disabled''"

definition print_line :: "string \<Rightarrow> state \<Rightarrow> state" where
  "print_line l st = st\<lparr>stdout := stdout st @ [l]\<rparr>"

definition say :: "string \<Rightarrow> state \<Rightarrow> state" where
  \<comment> \<open>\<^verbatim>\<open>if self.verbose: print(l)\<close>\<close>
  "say l st = (if verbose st then print_line l st else st)"

definition send :: "env \<Rightarrow> request \<Rightarrow> state \<Rightarrow> (error + response) \<times> state" where
  \<comment> \<open>\<^verbatim>\<open>self.s.get(...)\<close>, \<^verbatim>\<open>self.s.post(...)\<close>\<close>
  "send e q st = (http e (sent st) q, st\<lparr>sent := sent st @ [q]\<rparr>)"

definition sleep :: "nat \<Rightarrow> state \<Rightarrow> state" where
  "sleep n st = st\<lparr>sleeps := sleeps st @ [n]\<rparr>"

definition put_file :: "string \<Rightarrow> string \<Rightarrow> state \<Rightarrow> state" where
  \<comment> \<open>the file at \<open>p\<close> is created, or replaced, with the content \<open>b\<close>\<close>
  "put_file p b st = st\<lparr>files := (files st)(p \<mapsto> b), fslog := fslog st @ [Write p b]\<rparr>"

definition unlink :: "string \<Rightarrow> state \<Rightarrow> state" where
  \<comment> \<open>\<^verbatim>\<open>os.unlink(p)\<close>\<close>
  "unlink p st = st\<lparr>files := (files st)(p := None), fslog := fslog st @ [Unlink p]\<rparr>"

definition blank :: "string \<Rightarrow> bool" where
  \<comment> \<open>empty, or whitespace only\<close>
  "blank t = (\<forall>c\<in>set t. c \<in> set [CHR '' '', CHR 0x09, CHR 0x0A, CHR 0x0B, CHR 0x0C, CHR 0x0D])"

definition page_forms :: "env \<Rightarrow> string \<Rightarrow> error + form list" where
  \<comment> \<open>\<^verbatim>\<open>lxml.html.fromstring(t).forms\<close>: \<^verbatim>\<open>fromstring\<close> raises
      \<^verbatim>\<open>ParserError('Document is empty')\<close> on an empty or whitespace-only text\<close>
  "page_forms e t = (if blank t then Inl ParserError else forms e t)"

definition has_field :: "string \<Rightarrow> form \<Rightarrow> bool" where
  \<comment> \<open>\<^verbatim>\<open>name in f.fields.keys()\<close>\<close>
  "has_field k f = (k \<in> set (map fst (form_fields f)))"

definition set_field :: "string \<Rightarrow> string \<Rightarrow> form \<Rightarrow> error + form" where
  \<comment> \<open>\<^verbatim>\<open>f.fields[k] = v\<close>: lxml raises \<^verbatim>\<open>KeyError\<close> when the form has no input of that name\<close>
  "set_field k v f =
     (if has_field k f then Inr (f\<lparr>form_fields := AList.update k v (form_fields f)\<rparr>) else Inl KeyError)"

definition find_form :: "string \<Rightarrow> form list \<Rightarrow> form option" where
  \<comment> \<open>the \<^verbatim>\<open>for ... break ... else\<close> loops over \<^verbatim>\<open>page.forms\<close>\<close>
  "find_form k fs = List.find (has_field k) fs"

section \<open>Login and logout\<close>

definition nav_urls :: "node \<Rightarrow> state \<Rightarrow> (error + bool) \<times> state" where
  \<comment> \<open>lines 94 to 101: the three assignments, in order, each of which may raise\<close>
  "nav_urls page st =
     (case find (\<lambda>x. is_tag ''a'' x \<and> has_attr ''id'' ''logout'' x) page of
        None \<Rightarrow> (Inl TypeError, st)
      | Some lo \<Rightarrow>
     (case attr lo ''href'' of
        None \<Rightarrow> (Inl KeyError, st)
      | Some lo_href \<Rightarrow>
     let st1 = st\<lparr>logout_url := Some lo_href\<rparr> in
     (case find (has_attr ''tid'' ''Postfach'') page of
        None \<Rightarrow> (Inl AttributeError, st1)
      | Some pb \<Rightarrow>
     (case find (is_tag ''a'') pb of
        None \<Rightarrow> (Inl TypeError, st1)
      | Some pb_a \<Rightarrow>
     (case attr pb_a ''href'' of
        None \<Rightarrow> (Inl KeyError, st1)
      | Some pb_href \<Rightarrow>
     let st2 = st1\<lparr>postbox_url := Some pb_href\<rparr> in
     (case find (has_attr ''tid'' ''Umsaetze'') page of
        None \<Rightarrow> (Inl AttributeError, st2)
      | Some um \<Rightarrow>
     (case find (is_tag ''a'') um of
        None \<Rightarrow> (Inl TypeError, st2)
      | Some um_a \<Rightarrow>
     (case attr um_a ''href'' of
        None \<Rightarrow> (Inl KeyError, st2)
      | Some um_href \<Rightarrow>
     (Inr True, say ''Logged in to DKB Online Banking'' (st2\<lparr>umsatz_url := Some um_href\<rparr>))))))))))"

definition login :: "env \<Rightarrow> string \<Rightarrow> state \<Rightarrow> (error + bool) \<times> state" where
  "login e username st =
     (case send e (GET (base_url @ login_url)) (say ''Login to DKB Online Banking'' st) of
        (Inl err, st1) \<Rightarrow> (Inl err, st1)
      | (Inr r, st1) \<Rightarrow>
     (case page_forms e (rtext r) of
        Inl err \<Rightarrow> (Inl err, st1)
      | Inr login_page_forms \<Rightarrow>
     (case find_form ''j_username'' login_page_forms of
        None \<Rightarrow> (Inl (RuntimeError ''Login Form not found.''), st1)
      | Some f \<Rightarrow>
     (case set_field ''j_username'' username f of
        Inl err \<Rightarrow> (Inl err, st1)
      | Inr f1 \<Rightarrow>
     (case set_field ''j_password'' (getpass e) f1 of
        Inl err \<Rightarrow> (Inl err, st1)
      | Inr f2 \<Rightarrow>
     (case action f2 of
        None \<Rightarrow> (Inl TypeError, st1)
      | Some a \<Rightarrow>
     (case send e (POST (base_url @ a) (form_fields f2)) st1 of
        (Inl err, st2) \<Rightarrow> (Inl err, st2)
      | (Inr r2, st2) \<Rightarrow>
     if find (\<lambda>x. x = NavStr ''Finanzstatus'') (soup e (rtext r2)) = None
     then (Inl (RuntimeError ''Login to DKB Online Banking failed.''), st2)
     else nav_urls (soup e (rtext r2)) st2)))))))"

definition logout :: "env \<Rightarrow> state \<Rightarrow> (error + bool) \<times> state" where
  "logout e st =
     (let st1 = say ''Log out from DKB Online Banking'' st in
      case logout_url st1 of
        None \<Rightarrow> (Inl AttributeError, st1)
      | Some u \<Rightarrow>
     (case send e (GET (base_url @ u)) st1 of
        (Inl err, st2) \<Rightarrow> (Inl err, st2)
      | (Inr r, st2) \<Rightarrow> (Inr (status_code r = 200), st2\<lparr>closed := True\<rparr>)))"

section \<open>The postbox\<close>

record PostboxDocument =
  title :: string
  is_read :: bool
  url :: string
  filename :: string





section \<open>Downloading a document\<close>

definition exists_path :: "env \<Rightarrow> state \<Rightarrow> string \<Rightarrow> bool" where
  \<comment> \<open>\<^verbatim>\<open>os.path.exists\<close>\<close>
  "exists_path e st p = (files st p \<noteq> None \<or> is_dir e p)"

definition copyfile :: "env \<Rightarrow> string \<Rightarrow> string \<Rightarrow> state \<Rightarrow> (error + unit) \<times> state" where
  \<comment> \<open>\<^verbatim>\<open>shutil.copyfile(src, dst)\<close>\<close>
  "copyfile e src dst st =
     (case files st src of
        None \<Rightarrow> (Inl OSError, st)
      | Some b \<Rightarrow>
          if creatable e dst then (Inr (), put_file dst b st)
          else (Inl OSError, st))"

fun copy_loop :: "env \<Rightarrow> string \<Rightarrow> string list \<Rightarrow> state \<Rightarrow> (error + unit) \<times> state" where
  \<comment> \<open>the loop over the destinations, lines 177 to 185\<close>
  "copy_loop e tmp [] st = (Inr (), st)"
| "copy_loop e tmp (dest # dests) st =
     (let st1 = say (''Copy to '' @ dest) st in
      if exists_path e st1 dest
      then copy_loop e tmp dests (print_line ([CHR 0x22] @ dest @ [CHR 0x22] @ '' already exists'') st1)
      else (case copyfile e tmp dest st1 of
              (Inl err, st2) \<Rightarrow> (Inl err, st2)
            | (Inr u, st2) \<Rightarrow> copy_loop e tmp dests st2))"

definition download_document ::
  "env \<Rightarrow> PostboxDocument \<Rightarrow> string list \<Rightarrow> state \<Rightarrow> (error + bool) \<times> state" where
  "download_document e document destinations st =
     (case send e (GET (base_url @ url document))
             (say (''Download document '' @ [CHR 0x27] @ title document @ [CHR 0x27]) st) of
        (Inl err, st1) \<Rightarrow> (Inl err, st1)
      | (Inr r, st1) \<Rightarrow>
     if status_code r \<noteq> 200 then (Inl (RuntimeError ''Download failed.''), st1)
     else
       let tmp_filename = mkstemp e (exists_path e st1) in
       if exists_path e st1 tmp_filename then (Inl FileExistsError, st1)
       else
         (case copy_loop e tmp_filename destinations (put_file tmp_filename (rtext r) st1) of
            (Inl err, st2) \<Rightarrow> (Inl err, st2)
          | (Inr u, st2) \<Rightarrow> (Inr True, unlink tmp_filename st2)))"

section \<open>The accounts and their transactions\<close>

text \<open>
  \<^verbatim>\<open>self.accounts\<close> is a Python dict: an association list in insertion order, where
  storing under a key that is present replaces its value in place (\<open>AList.update\<close>).
\<close>

fun accounts_loop ::
  "node list \<Rightarrow> (string \<times> string) list \<Rightarrow> error option \<times> (string \<times> string) list" where
  "accounts_loop [] d = (None, d)"
| "accounts_loop (account # rest) d =
     (case attr account ''value'' of
        None \<Rightarrow> (Some KeyError, d)
      | Some v \<Rightarrow> accounts_loop rest (AList.update v (get_text account) d))"

definition get_banking_accounts :: "env \<Rightarrow> state \<Rightarrow> (error + unit) \<times> state" where
  "get_banking_accounts e st =
     (case umsatz_url st of
        None \<Rightarrow> (Inl AttributeError, st)
      | Some u \<Rightarrow>
     (case send e (GET (base_url @ u)) st of
        (Inl err, st1) \<Rightarrow> (Inl err, st1)
      | (Inr r, st1) \<Rightarrow>
     (case find (has_attr ''tid'' ''slAllAccounts'') (soup e (rtext r)) of
        None \<Rightarrow> (Inl AttributeError, st1\<lparr>accounts := Some []\<rparr>)
      | Some sel \<Rightarrow>
     (case accounts_loop (find_all (is_tag ''option'') sel) [] of
        (Some err, d) \<Rightarrow> (Inl err, st1\<lparr>accounts := Some d\<rparr>)
      | (None, d) \<Rightarrow> (Inr (), st1\<lparr>accounts := Some d\<rparr>)))))"

text \<open>
  A \<^verbatim>\<open>datetime.date\<close>, and \<^verbatim>\<open>strftime("%d.%m.%Y")\<close> on it: the day and the month with two
  digits, the year with four (a \<^verbatim>\<open>datetime.date\<close> has \<open>1 \<le> day \<le> 31\<close>,
  \<open>1 \<le> month \<le> 12\<close> and \<open>1 \<le> year \<le> 9999\<close>).
\<close>

record date =
  year :: nat
  month :: nat
  day :: nat

definition digit :: "nat \<Rightarrow> char" where
  "digit n = ''0123456789'' ! (n mod 10)"

definition strftime :: "date \<Rightarrow> string" where
  "strftime d =
     [digit (day d div 10), digit (day d), CHR ''.'',
      digit (month d div 10), digit (month d), CHR ''.'',
      digit (year d div 1000), digit (year d div 100), digit (year d div 10), digit (year d)]"


text \<open>
  What a caller may pass for a date: a \<^verbatim>\<open>datetime.date\<close>, an instance of its subclass
  \<^verbatim>\<open>datetime.datetime\<close> (whose type is not \<^verbatim>\<open>datetime.date\<close>, but which has \<^verbatim>\<open>strftime\<close>), or
  something else.
\<close>

datatype date_arg = DateArg date | DateTimeArg date | OtherArg

definition csv_name :: "string \<Rightarrow> string \<Rightarrow> string \<Rightarrow> string \<Rightarrow> string" where
  \<comment> \<open>\<^verbatim>\<open>destination+"ac%s_%s_to_%s.csv"%(o, start_date_str, end_date_str)\<close>\<close>
  "csv_name destination k sd ed =
     destination @ ''ac'' @ k @ ''_'' @ sd @ ''_to_'' @ ed @ ''.csv''"

definition write_file :: "env \<Rightarrow> string \<Rightarrow> string \<Rightarrow> state \<Rightarrow> (error + unit) \<times> state" where
  \<comment> \<open>\<^verbatim>\<open>fout = open(p, 'w'); fout.write(t); fout.close()\<close>: \<^verbatim>\<open>open\<close> raises and
      changes nothing where no file can be created; otherwise it creates the file, or
      empties the one that is there, before \<^verbatim>\<open>write\<close> and \<^verbatim>\<open>close\<close> can raise\<close>
  "write_file e p t st =
     (if \<not> creatable e p then (Inl OSError, st)
      else
        let st1 = put_file p [] st in
        (case write_failure e p t of
           Some (err, left) \<Rightarrow> (Inl err, put_file p left st1)
         | None \<Rightarrow> (Inr (), put_file p t st1)))"

definition export_account ::
  "env \<Rightarrow> string \<Rightarrow> string \<Rightarrow> string \<Rightarrow> string \<Rightarrow> form \<Rightarrow> state \<Rightarrow> (error + form) \<times> state" where
  \<comment> \<open>lines 231 to 254, for the account key \<open>k\<close>; the form keeps the values it is given\<close>
  "export_account e destination sd ed k f st =
     (case set_field ''slAllAccounts'' k f of
        Inl err \<Rightarrow> (Inl err, st)
      | Inr f1 \<Rightarrow>
     (case set_field ''searchPeriodRadio'' ''1'' f1 of
        Inl err \<Rightarrow> (Inl err, st)
      | Inr f2 \<Rightarrow>
     (case set_field ''transactionDate'' sd f2 of
        Inl err \<Rightarrow> (Inl err, st)
      | Inr f3 \<Rightarrow>
     (case set_field ''toTransactionDate'' ed f3 of
        Inl err \<Rightarrow> (Inl err, st)
      | Inr f4 \<Rightarrow>
     (case action f4 of
        None \<Rightarrow> (Inl TypeError, st)
      | Some a \<Rightarrow>
     (case send e (POST (base_url @ a) (form_fields f4)) st of
        (Inl err, st1) \<Rightarrow> (Inl err, st1)
      | (Inr r, st1) \<Rightarrow>
     (case find (\<lambda>x. is_tag ''a'' x \<and> has_attr ''tid'' ''csvExport'' x) (soup e (rtext r)) of
        None \<Rightarrow> (Inl TypeError, st1)
      | Some link \<Rightarrow>
     (case attr link ''href'' of
        None \<Rightarrow> (Inl KeyError, st1)
      | Some csv_url \<Rightarrow>
     (case send e (GET (base_url @ csv_url)) st1 of
        (Inl err, st2) \<Rightarrow> (Inl err, st2)
      | (Inr r2, st2) \<Rightarrow>
     (case write_file e (csv_name destination k sd ed) (rtext r2) st2 of
        (Inl err, st3) \<Rightarrow> (Inl err, st3)
      | (Inr u, st3) \<Rightarrow> (Inr f4, st3)))))))))))"

fun export_loop ::
  "env \<Rightarrow> string \<Rightarrow> string \<Rightarrow> string \<Rightarrow> (string \<times> string) list \<Rightarrow> string list \<Rightarrow> form \<Rightarrow> state
   \<Rightarrow> (error + unit) \<times> state" where
  \<comment> \<open>the loop over \<^verbatim>\<open>list(self.accounts.keys())\<close>, lines 229 to 255\<close>
  "export_loop e destination sd ed accs [] f st = (Inr (), st)"
| "export_loop e destination sd ed accs (k # ks) f st =
     (case map_of accs k of
        None \<Rightarrow> (Inl KeyError, st)
      | Some name \<Rightarrow>
          if \<not> contains name ''PayPal''
          then (case export_account e destination sd ed k f st of
                  (Inl err, st1) \<Rightarrow> (Inl err, st1)
                | (Inr f1, st1) \<Rightarrow> export_loop e destination sd ed accs ks f1 (sleep 5 st1))
          else export_loop e destination sd ed accs ks f (sleep 5 st))"

definition get_all_banking_account_transactions ::
  "env \<Rightarrow> date_arg \<Rightarrow> date_arg \<Rightarrow> string \<Rightarrow> state \<Rightarrow> (error + unit) \<times> state" where
  "get_all_banking_account_transactions e start_date end_date destination st =
     (case start_date of
        DateTimeArg d \<Rightarrow> (Inl AssertionError, st)
      | OtherArg \<Rightarrow> (Inl AssertionError, st)
      | DateArg sd \<Rightarrow>
     (case (case end_date of DateArg d \<Rightarrow> Some d | DateTimeArg d \<Rightarrow> Some d | OtherArg \<Rightarrow> None) of
        None \<Rightarrow> (Inl AttributeError, st)
      | Some ed \<Rightarrow>
     (case umsatz_url st of
        None \<Rightarrow> (Inl AttributeError, st)
      | Some u \<Rightarrow>
     (case send e (GET (base_url @ u)) st of
        (Inl err, st1) \<Rightarrow> (Inl err, st1)
      | (Inr r, st1) \<Rightarrow>
     (case page_forms e (rtext r) of
        Inl err \<Rightarrow> (Inl err, st1)
      | Inr selection_page_forms \<Rightarrow>
     (case find_form ''slAllAccounts'' selection_page_forms of
        None \<Rightarrow> (Inl (RuntimeError ''Could not find selection forms.''), st1)
      | Some f \<Rightarrow>
     (case accounts st1 of
        None \<Rightarrow> (Inl AttributeError, st1)
      | Some accs \<Rightarrow>
          export_loop e destination (strftime sd) (strftime ed) accs (map fst accs) f st1)))))))"

section \<open>Notions of the specification\<close>

text \<open>
  The specification's words for the filename: the last path segment of the url, with
  any query string stripped, suffixed with the document extension. The path of a url
  ends where its query string begins, at the first \<open>?\<close>.
\<close>

definition spec_filename :: "string \<Rightarrow> string" where
  "spec_filename u = last (split CHR ''/'' (takeWhile (\<lambda>x. x \<noteq> CHR ''?'') u)) @ ''.pdf''"


text \<open>An account of the directory is exported when its name does not carry the exclusion marker.\<close>

definition exported :: "(string \<times> string) list \<Rightarrow> string \<Rightarrow> bool" where
  "exported accs k =
     (case map_of accs k of None \<Rightarrow> False | Some name \<Rightarrow> \<not> contains name ''PayPal'')"

section \<open>An example portal\<close>

text \<open>
  A small portal to run the session against: a login page with a search form and the
  login form, a home page with the three navigation links, a postbox with two
  documents (the first unread), a second postbox whose only document has a link without
  text, a transactions page with the selection form, and an export page for every
  account but the one with key \<open>9\<close>. No file can be created under \<^verbatim>\<open>/nodir\<close>.
\<close>

definition fx_document :: PostboxDocument where
  "fx_document =
     \<lparr>title = ''Kontoauszug'', is_read = False, url = ''/doc/42?x=1'', filename = ''42.pdf''\<rparr>"

definition fx_http :: "request list \<Rightarrow> request \<Rightarrow> error + response" where
  "fx_http hist q =
     (case q of
        GET u \<Rightarrow>
          if u = ''https://www.dkb.de/-?$javascript=disabled''
          then Inr \<lparr>status_code = 200, rtext = ''<login>''\<rparr>
          else if u = ''https://www.dkb.de/postbox''
          then Inr \<lparr>status_code = 200, rtext = ''<postbox>''\<rparr>
          else if u = ''https://www.dkb.de/postbox2''
          then Inr \<lparr>status_code = 200, rtext = ''<postbox2>''\<rparr>
          else if u = ''https://www.dkb.de/doc/42?x=1''
          then Inr \<lparr>status_code = 200, rtext = ''%PDF-1.4''\<rparr>
          else if u = ''https://www.dkb.de/umsatz''
          then Inr \<lparr>status_code = 200, rtext = ''<umsatz>''\<rparr>
          else if u = ''https://www.dkb.de/csv''
          then Inr \<lparr>status_code = 200, rtext = ''a;b''\<rparr>
          else if u = ''https://www.dkb.de/logout''
          then Inr \<lparr>status_code = 200, rtext = []\<rparr>
          else Inr \<lparr>status_code = 404, rtext = []\<rparr>
      | POST u d \<Rightarrow>
          if u = ''https://www.dkb.de/login''
          then (if map_of d ''j_password'' = Some ''secret''
                then Inr \<lparr>status_code = 200, rtext = ''<home>''\<rparr>
                else Inr \<lparr>status_code = 200, rtext = ''<denied>''\<rparr>)
          else if u = ''https://www.dkb.de/sel''
          then (if map_of d ''slAllAccounts'' = Some ''9''
                then Inr \<lparr>status_code = 200, rtext = ''<empty>''\<rparr>
                else Inr \<lparr>status_code = 200, rtext = ''<export>''\<rparr>)
          else Inr \<lparr>status_code = 404, rtext = []\<rparr>)"

definition fx_row :: "string \<Rightarrow> node list \<Rightarrow> node" where
  "fx_row href title_cell =
     Tag ''tr'' []
       [Tag ''td'' [(''id'', ''title'')] title_cell,
        Tag ''td'' [] [Tag ''a'' [(''href'', href)] [Tag ''span'' [(''title'', ''Speichern'')] []]]]"

definition fx_rows :: "node list" where
  "fx_rows =
     [fx_row ''/doc/42?x=1'' [Tag ''strong'' [] [Tag ''a'' [] [NavStr ''Kontoauszug'']]],
      fx_row ''/doc/43'' [Tag ''a'' [] [NavStr ''Mitteilung'']]]"

definition fx_untitled_row :: node where
  "fx_untitled_row = fx_row ''/doc/44'' [Tag ''a'' [] []]"

definition fx_listing :: "node list \<Rightarrow> node" where
  "fx_listing rows =
     Tag ''[document]'' []
       [Tag ''div'' [(''id'', ''documentsTableOverview_outer'')]
          [Tag ''table'' [] [Tag ''tbody'' [] rows]]]"

definition fx_home :: node where
  "fx_home =
     Tag ''[document]'' []
       [Tag ''h1'' [] [NavStr ''Finanzstatus''],
        Tag ''a'' [(''id'', ''logout''), (''href'', ''/logout'')] [],
        Tag ''li'' [(''tid'', ''Postfach'')] [Tag ''a'' [(''href'', ''/postbox'')] []],
        Tag ''li'' [(''tid'', ''Umsaetze'')] [Tag ''a'' [(''href'', ''/umsatz'')] []]]"

definition fx_soup :: "string \<Rightarrow> node" where
  "fx_soup t =
     (if t = ''<home>'' then fx_home
      else if t = ''<postbox>'' then fx_listing fx_rows
      else if t = ''<postbox2>'' then fx_listing [fx_untitled_row]
      else if t = ''<export>''
      then Tag ''[document]'' [] [Tag ''a'' [(''tid'', ''csvExport''), (''href'', ''/csv'')] []]
      else Tag ''[document]'' [] [])"

definition fx_search_form :: form where
  "fx_search_form = \<lparr>action = Some ''/search'', form_fields = [(''q'', [])]\<rparr>"

definition fx_forms :: "string \<Rightarrow> error + form list" where
  "fx_forms t =
     (if t = ''<login>''
      then Inr [fx_search_form,
                \<lparr>action = Some ''/login'',
                 form_fields = [(''j_username'', []), (''j_password'', [])]\<rparr>]
      else if t = ''<umsatz>''
      then Inr [\<lparr>action = Some ''/sel'',
                 form_fields = [(''slAllAccounts'', []), (''searchPeriodRadio'', ''0''),
                                (''transactionDate'', []), (''toTransactionDate'', [])]\<rparr>]
      else Inr [])"

definition fx_env :: env where
  "fx_env =
     \<lparr>http = fx_http, soup = fx_soup, forms = fx_forms, getpass = ''secret'',
      is_dir = (\<lambda>p. False), creatable = (\<lambda>p. p \<noteq> ''/nodir/a.pdf''),
      mkstemp = (\<lambda>ex. ''/tmp/tmp0''), write_failure = (\<lambda>p t. None)\<rparr>"

definition fx_state :: state where
  "fx_state =
     \<lparr>logout_url = Some ''/logout'', postbox_url = Some ''/postbox'',
      umsatz_url = Some ''/umsatz'',
      accounts = Some [(''1'', ''Girokonto''), (''2'', ''PayPal''), (''3'', ''Visa'')],
      verbose = False, closed = False, sent = [],
      files = [''old.pdf'' \<mapsto> ''OLD''], fslog = [], stdout = [], sleeps = []\<rparr>"

definition fx_jan :: date where
  "fx_jan = \<lparr>year = 2020, month = 1, day = 1\<rparr>"

definition fx_feb :: date where
  "fx_feb = \<lparr>year = 2020, month = 2, day = 1\<rparr>"

definition fx_first_run :: state where
  "fx_first_run = snd (download_document fx_env fx_document [''old.pdf'', ''new.pdf''] fx_state)"

definition fx_removed :: state where
  "fx_removed = fx_first_run\<lparr>files := (files fx_first_run)(''new.pdf'' := None)\<rparr>"

definition fx_missing :: PostboxDocument where
  "fx_missing = \<lparr>title = ''Gone'', is_read = True, url = ''/doc/0'', filename = ''0.pdf''\<rparr>"

definition fx_paypal_only :: state where
  "fx_paypal_only = fx_state\<lparr>accounts := Some [(''2'', ''PayPal'')]\<rparr>"

definition fx_depot :: state where
  "fx_depot = fx_state\<lparr>accounts := Some [(''1'', ''Girokonto''), (''9'', ''Depot''), (''3'', ''Visa'')]\<rparr>"

definition fx_empty_env :: env where
  \<comment> \<open>the portal answering every request with an empty page\<close>
  "fx_empty_env = fx_env\<lparr>http := (\<lambda>hist q. Inr \<lparr>status_code = 200, rtext = []\<rparr>)\<rparr>"

section \<open>Properties of the string functions\<close>

lemma split_not_Nil: "split c s \<noteq> []"
  by (induction s) (auto split: list.splits)

lemma hd_split: "hd (split c s) = takeWhile (\<lambda>x. x \<noteq> c) s"
  by (induction s) (auto split: list.splits simp: split_not_Nil)

lemma split_no_sep: "c \<notin> set b \<Longrightarrow> split c b = [b]"
  by (induction b) auto

lemma split_append:
  "c \<notin> set b \<Longrightarrow> split c (a @ b) = butlast (split c a) @ [last (split c a) @ b]"
proof (induction a)
  case Nil
  then show ?case by (simp add: split_no_sep)
next
  case (Cons x a)
  obtain p ps where ps: "split c a = p # ps"
    using split_not_Nil[of c a] by (cases "split c a") auto
  show ?case
  proof (cases ps)
    case Nil
    with Cons ps show ?thesis by simp
  next
    case (Cons y ys)
    with Cons.IH[OF Cons.prems] ps show ?thesis by simp
  qed
qed

lemma last_split_append: "c \<notin> set b \<Longrightarrow> last (split c (a @ b)) = last (split c a) @ b"
  by (simp add: split_append)

lemma takeWhile_append_stop:
  "c \<notin> set s \<Longrightarrow> q = [] \<or> hd q = c \<Longrightarrow> takeWhile (\<lambda>x. x \<noteq> c) (s @ q) = s"
proof (induction s)
  case Nil
  then show ?case by (cases q) auto
next
  case (Cons x s)
  then show ?case by auto
qed

lemma set_last_split: "set (last (split c s)) \<subseteq> set s"
  by (induction s) (auto split: list.splits simp: split_not_Nil)

text \<open>
  Where no \<open>/\<close> follows the first \<open>?\<close> of the url, the filename of line 144 is the
  last path segment with the query string stripped.
\<close>

lemma filename_of_spec_filename:
  assumes "CHR ''/'' \<notin> set (dropWhile (\<lambda>x. x \<noteq> CHR ''?'') u)"
  shows "filename_of u = spec_filename u"
proof -
  let ?p = "takeWhile (\<lambda>x. x \<noteq> CHR ''?'') u" and ?q = "dropWhile (\<lambda>x. x \<noteq> CHR ''?'') u"
  let ?seg = "last (split CHR ''/'' ?p)"
  have "last (split CHR ''/'' u) = last (split CHR ''/'' (?p @ ?q))" by simp
  also have "\<dots> = ?seg @ ?q" using assms by (rule last_split_append)
  finally have seg: "last (split CHR ''/'' u) = ?seg @ ?q" .
  have noq: "CHR ''?'' \<notin> set ?seg"
    using set_last_split[of "CHR ''/''" ?p] by (auto dest: set_takeWhileD)
  have "?q = [] \<or> hd ?q = CHR ''?''"
    using hd_dropWhile[of "\<lambda>x. x \<noteq> CHR ''?''" u] by blast
  with noq have "takeWhile (\<lambda>x. x \<noteq> CHR ''?'') (?seg @ ?q) = ?seg"
    by (rule takeWhile_append_stop)
  then show ?thesis
    by (simp add: filename_of_def spec_filename_def hd_split seg)
qed

section \<open>Properties of the effects\<close>

lemma files_print_line [simp]: "files (print_line l st) = files st"
  and sent_print_line [simp]: "sent (print_line l st) = sent st"
  and sleeps_print_line [simp]: "sleeps (print_line l st) = sleeps st"
  by (simp_all add: print_line_def)

lemma files_put_file [simp]: "files (put_file p b st) = (files st)(p \<mapsto> b)"
  and sent_put_file [simp]: "sent (put_file p b st) = sent st"
  and sleeps_put_file [simp]: "sleeps (put_file p b st) = sleeps st"
  and stdout_put_file [simp]: "stdout (put_file p b st) = stdout st"
  and fslog_put_file [simp]: "fslog (put_file p b st) = fslog st @ [Write p b]"
  by (simp_all add: put_file_def)

lemma files_unlink [simp]: "files (unlink p st) = (files st)(p := None)"
  and sent_unlink [simp]: "sent (unlink p st) = sent st"
  and sleeps_unlink [simp]: "sleeps (unlink p st) = sleeps st"
  and stdout_unlink [simp]: "stdout (unlink p st) = stdout st"
  and fslog_unlink [simp]: "fslog (unlink p st) = fslog st @ [Unlink p]"
  by (simp_all add: unlink_def)

lemma fslog_print_line [simp]: "fslog (print_line l st) = fslog st"
  by (simp add: print_line_def)

lemma fslog_say [simp]: "fslog (say l st) = fslog st"
  by (simp add: say_def)

lemma files_say [simp]: "files (say l st) = files st"
  and sent_say [simp]: "sent (say l st) = sent st"
  and sleeps_say [simp]: "sleeps (say l st) = sleeps st"
  by (simp_all add: say_def)

lemma exists_path_print_line [simp]: "exists_path e (print_line l st) = exists_path e st"
  by (rule ext) (simp add: exists_path_def)

lemma exists_path_say [simp]: "exists_path e (say l st) = exists_path e st"
  by (rule ext) (simp add: exists_path_def)

lemma set_stdout_print_line: "set (stdout (print_line l st)) = insert l (set (stdout st))"
  by (simp add: print_line_def)

lemma stdout_say_mono: "set (stdout st) \<subseteq> set (stdout (say l st))"
  by (auto simp: say_def print_line_def)

text \<open>Whatever the loop does, a file that is there stays as it is.\<close>

lemma copy_loop_keeps:
  "files st p = Some c \<Longrightarrow> files (snd (copy_loop e tmp dests st)) p = Some c"
proof (induction dests arbitrary: st)
  case Nil
  then show ?case by simp
next
  case (Cons d dests)
  show ?case
  proof (cases "exists_path e st d")
    case True
    then show ?thesis using Cons by (simp add: Let_def)
  next
    case False
    then have "p \<noteq> d" using Cons.prems by (auto simp: exists_path_def)
    then show ?thesis
      using False Cons by (auto simp: Let_def copyfile_def split: option.splits)
  qed
qed

lemma copy_loop_stdout_mono:
  "set (stdout st) \<subseteq> set (stdout (snd (copy_loop e tmp dests st)))"
proof (induction dests arbitrary: st)
  case Nil
  then show ?case by simp
next
  case (Cons d dests)
  have a: "set (stdout st) \<subseteq> set (stdout (say (''Copy to '' @ d) st))" by (rule stdout_say_mono)
  show ?case
  proof (cases "exists_path e st d")
    case True
    have "set (stdout st) \<subseteq> set (stdout (print_line ([CHR 0x22] @ d @ [CHR 0x22] @ '' already exists'') (say (''Copy to '' @ d) st)))"
      using a by (auto simp: set_stdout_print_line)
    also have "\<dots> \<subseteq> set (stdout (snd (copy_loop e tmp (d # dests) st)))"
      using True Cons.IH by (simp add: Let_def)
    finally show ?thesis .
  next
    case False
    show ?thesis
    proof (cases "copyfile e tmp d (say (''Copy to '' @ d) st)")
      case (Pair r st2)
      then have s2: "stdout st2 = stdout (say (''Copy to '' @ d) st)"
        by (auto simp: copyfile_def split: option.splits if_splits)
      show ?thesis
      proof (cases r)
        case (Inl err)
        then show ?thesis using False Pair a s2 by (simp add: Let_def)
      next
        case (Inr u)
        have "set (stdout st) \<subseteq> set (stdout st2)" using a s2 by simp
        also have "\<dots> \<subseteq> set (stdout (snd (copy_loop e tmp dests st2)))" by (rule Cons.IH)
        finally show ?thesis using False Pair Inr by (simp add: Let_def)
      qed
    qed
  qed
qed

text \<open>When every destination exists or can be created, the loop completes.\<close>

lemma copy_loop_completes:
  assumes "files st tmp = Some b" and "\<forall>d\<in>set dests. exists_path e st d \<or> creatable e d"
  shows "fst (copy_loop e tmp dests st) = Inr ()
       \<and> (\<forall>p. files (snd (copy_loop e tmp dests st)) p =
              (if p \<in> set dests \<and> \<not> exists_path e st p then Some b else files st p))
       \<and> (\<forall>d\<in>set dests. exists_path e st d \<longrightarrow>
              [CHR 0x22] @ d @ [CHR 0x22] @ '' already exists''
                \<in> set (stdout (snd (copy_loop e tmp dests st))))"
  using assms
proof (induction dests arbitrary: st)
  case Nil
  then show ?case by simp
next
  case (Cons d dests)
  let ?st1 = "say (''Copy to '' @ d) st"
  show ?case
  proof (cases "exists_path e st d")
    case True
    let ?st2 = "print_line ([CHR 0x22] @ d @ [CHR 0x22] @ '' already exists'') ?st1"
    have eq: "copy_loop e tmp (d # dests) st = copy_loop e tmp dests ?st2"
      using True by (simp add: Let_def)
    have ih: "fst (copy_loop e tmp dests ?st2) = Inr ()
       \<and> (\<forall>p. files (snd (copy_loop e tmp dests ?st2)) p =
              (if p \<in> set dests \<and> \<not> exists_path e ?st2 p then Some b else files ?st2 p))
       \<and> (\<forall>d\<in>set dests. exists_path e ?st2 d \<longrightarrow>
              [CHR 0x22] @ d @ [CHR 0x22] @ '' already exists''
                \<in> set (stdout (snd (copy_loop e tmp dests ?st2))))"
      using Cons.prems by (intro Cons.IH) auto
    have rep: "[CHR 0x22] @ d @ [CHR 0x22] @ '' already exists'' \<in> set (stdout (snd (copy_loop e tmp dests ?st2)))"
      using copy_loop_stdout_mono[of ?st2 e tmp dests] by (auto simp: set_stdout_print_line)
    show ?thesis unfolding eq using ih True rep by auto
  next
    case False
    then have cr: "creatable e d" using Cons.prems by auto
    define st2 where "st2 = put_file d b ?st1"
    have eq: "copy_loop e tmp (d # dests) st = copy_loop e tmp dests st2"
      using False cr Cons.prems(1) by (simp add: Let_def copyfile_def st2_def)
    have f2: "files st2 = (files st)(d \<mapsto> b)" by (simp add: st2_def)
    have ex2: "exists_path e st2 p \<longleftrightarrow> exists_path e st p \<or> p = d" for p
      by (auto simp: exists_path_def f2)
    have "d \<noteq> tmp" using False Cons.prems(1) by (auto simp: exists_path_def)
    then have tmp2: "files st2 tmp = Some b" using Cons.prems(1) by (simp add: f2)
    have pre2: "\<forall>x\<in>set dests. exists_path e st2 x \<or> creatable e x"
      using Cons.prems(2) ex2 by auto
    have ih: "fst (copy_loop e tmp dests st2) = Inr ()
       \<and> (\<forall>p. files (snd (copy_loop e tmp dests st2)) p =
              (if p \<in> set dests \<and> \<not> exists_path e st2 p then Some b else files st2 p))
       \<and> (\<forall>d\<in>set dests. exists_path e st2 d \<longrightarrow>
              [CHR 0x22] @ d @ [CHR 0x22] @ '' already exists''
                \<in> set (stdout (snd (copy_loop e tmp dests st2))))"
      using tmp2 pre2 by (rule Cons.IH)
    show ?thesis unfolding eq using ih False by (auto simp: ex2 f2)
  qed
qed


lemma copy_loop_outside:
  "p \<notin> set dests \<Longrightarrow> files (snd (copy_loop e tmp dests st)) p = files st p"
proof (induction dests arbitrary: st)
  case Nil
  then show ?case by simp
next
  case (Cons d dests)
  then show ?case
    by (cases "exists_path e st d") (auto simp: Let_def copyfile_def split: option.splits)
qed



lemma exists_path_sent [simp]: "exists_path e (st\<lparr>sent := x\<rparr>) = exists_path e st"
  by (rule ext) (simp add: exists_path_def)

text \<open>The shape of a download once the document has been fetched.\<close>

lemma download_document_fetched:
  assumes "http e (sent st) (GET (base_url @ url doc)) = Inr r"
    and "status_code r = 200"
    and "\<not> exists_path e st (mkstemp e (exists_path e st))"
    and "st0 = put_file (mkstemp e (exists_path e st)) (rtext r)
                 ((say (''Download document '' @ [CHR 0x27] @ title doc @ [CHR 0x27]) st)
                    \<lparr>sent := sent st @ [GET (base_url @ url doc)]\<rparr>)"
  shows "download_document e doc dests st =
     (case copy_loop e (mkstemp e (exists_path e st)) dests st0 of
        (Inl err, st2) \<Rightarrow> (Inl err, st2)
      | (Inr u, st2) \<Rightarrow> (Inr True, unlink (mkstemp e (exists_path e st)) st2))"
  using assms by (simp add: download_document_def send_def Let_def cong: sum.case_cong)

lemma download_document_not_fetched:
  assumes "http e (sent st) (GET (base_url @ url doc)) = Inr r"
    and "status_code r \<noteq> 200 \<or> exists_path e st (mkstemp e (exists_path e st))"
  shows "files (snd (download_document e doc dests st)) = files st"
    and "status_code r \<noteq> 200 \<Longrightarrow>
           fst (download_document e doc dests st) = Inl (RuntimeError ''Download failed.'')"
    and "\<exists>err. fst (download_document e doc dests st) = Inl err"
  using assms by (auto simp: download_document_def send_def Let_def)

lemma copy_loop_Inr_imp:
  assumes "files st tmp = Some b" and "fst (copy_loop e tmp dests st) = Inr u"
  shows "\<forall>d\<in>set dests. exists_path e st d \<or> creatable e d"
  using assms
proof (induction dests arbitrary: st)
  case Nil
  then show ?case by simp
next
  case (Cons d dests)
  show ?case
  proof (cases "exists_path e st d")
    case True
    define st2 where "st2 = print_line ([CHR 0x22] @ d @ [CHR 0x22] @ '' already exists'') (say (''Copy to '' @ d) st)"
    have eq: "copy_loop e tmp (d # dests) st = copy_loop e tmp dests st2"
      using True by (simp add: Let_def st2_def)
    have "files st2 tmp = Some b" using Cons.prems(1) by (simp add: st2_def)
    moreover have "fst (copy_loop e tmp dests st2) = Inr u" using Cons.prems(2) eq by simp
    ultimately have "\<forall>x\<in>set dests. exists_path e st2 x \<or> creatable e x" by (rule Cons.IH)
    moreover have "exists_path e st2 = exists_path e st" by (simp add: st2_def)
    ultimately show ?thesis using True by simp
  next
    case False
    have cr: "creatable e d"
    proof (rule ccontr)
      assume "\<not> creatable e d"
      then have "fst (copy_loop e tmp (d # dests) st) = Inl OSError"
        using False Cons.prems(1) by (simp add: Let_def copyfile_def)
      then show False using Cons.prems(2) by simp
    qed
    define st2 where "st2 = put_file d b (say (''Copy to '' @ d) st)"
    have eq: "copy_loop e tmp (d # dests) st = copy_loop e tmp dests st2"
      using False cr Cons.prems(1) by (simp add: Let_def copyfile_def st2_def)
    have f2: "files st2 = (files st)(d \<mapsto> b)" by (simp add: st2_def)
    have "d \<noteq> tmp" using False Cons.prems(1) by (auto simp: exists_path_def)
    then have "files st2 tmp = Some b" using Cons.prems(1) by (simp add: f2)
    moreover have "fst (copy_loop e tmp dests st2) = Inr u" using Cons.prems(2) eq by simp
    ultimately have "\<forall>x\<in>set dests. exists_path e st2 x \<or> creatable e x" by (rule Cons.IH)
    moreover have "exists_path e st2 x \<longleftrightarrow> exists_path e st x \<or> x = d" for x
      by (auto simp: exists_path_def f2)
    ultimately show ?thesis using cr by auto
  qed
qed

lemma download_document_keeps:
  assumes "files st p = Some c"
  shows "files (snd (download_document e doc dests st)) p = Some c"
proof (cases "http e (sent st) (GET (base_url @ url doc))")
  case (Inl err)
  then show ?thesis using assms by (simp add: download_document_def send_def)
next
  case (Inr r)
  let ?tmp = "mkstemp e (exists_path e st)"
  show ?thesis
  proof (cases "status_code r \<noteq> 200 \<or> exists_path e st ?tmp")
    case True
    with Inr assms show ?thesis by (simp add: download_document_not_fetched(1))
  next
    case False
    define st0 where "st0 = put_file ?tmp (rtext r)
                 ((say (''Download document '' @ [CHR 0x27] @ title doc @ [CHR 0x27]) st)
                    \<lparr>sent := sent st @ [GET (base_url @ url doc)]\<rparr>)"
    have eq: "download_document e doc dests st =
     (case copy_loop e ?tmp dests st0 of
        (Inl err, st2) \<Rightarrow> (Inl err, st2)
      | (Inr u, st2) \<Rightarrow> (Inr True, unlink ?tmp st2))"
      using Inr False st0_def by (intro download_document_fetched) auto
    have ne: "p \<noteq> ?tmp" using False assms by (auto simp: exists_path_def)
    then have "files st0 p = Some c" using assms by (simp add: st0_def)
    then have "files (snd (copy_loop e ?tmp dests st0)) p = Some c" by (rule copy_loop_keeps)
    then show ?thesis unfolding eq using ne
      by (cases "copy_loop e ?tmp dests st0") (auto split: sum.splits)
  qed
qed

lemma download_document_returns:
  assumes get: "http e (sent st) (GET (base_url @ url doc)) = Inr r"
    and ok: "fst (download_document e doc dests st) = Inr True"
  shows "status_code r = 200"
    and "\<not> exists_path e st (mkstemp e (exists_path e st))"
    and "\<forall>d\<in>set dests. exists_path e st d \<or> d = mkstemp e (exists_path e st) \<or> creatable e d"
    and "\<forall>p. files (snd (download_document e doc dests st)) p =
           (if p \<in> set dests \<and> \<not> exists_path e st p \<and> p \<noteq> mkstemp e (exists_path e st)
            then Some (rtext r) else files st p)"
proof -
  let ?tmp = "mkstemp e (exists_path e st)"
  have nf: "\<not> (status_code r \<noteq> 200 \<or> exists_path e st ?tmp)"
    using download_document_not_fetched(3)[OF get, of dests] ok by auto
  then show a: "status_code r = 200" and b: "\<not> exists_path e st ?tmp" by auto
  define st0 where "st0 = put_file ?tmp (rtext r)
                 ((say (''Download document '' @ [CHR 0x27] @ title doc @ [CHR 0x27]) st)
                    \<lparr>sent := sent st @ [GET (base_url @ url doc)]\<rparr>)"
  have eq: "download_document e doc dests st =
     (case copy_loop e ?tmp dests st0 of
        (Inl err, st2) \<Rightarrow> (Inl err, st2)
      | (Inr u, st2) \<Rightarrow> (Inr True, unlink ?tmp st2))"
    using get a b st0_def by (rule download_document_fetched)
  obtain u st2 where l: "copy_loop e ?tmp dests st0 = (u, st2)" by (cases "copy_loop e ?tmp dests st0")
  have u: "u = Inr ()" using ok unfolding eq l by (cases u) auto
  have t0: "files st0 ?tmp = Some (rtext r)" by (simp add: st0_def)
  have ex0: "exists_path e st0 x \<longleftrightarrow> exists_path e st x \<or> x = ?tmp" for x
    by (auto simp: exists_path_def st0_def)
  have all: "\<forall>d\<in>set dests. exists_path e st0 d \<or> creatable e d"
    using t0 by (rule copy_loop_Inr_imp) (simp add: l u)
  then show "\<forall>d\<in>set dests. exists_path e st d \<or> d = ?tmp \<or> creatable e d"
    by (auto simp: ex0)
  have f2: "files st2 p = (if p \<in> set dests \<and> \<not> exists_path e st0 p then Some (rtext r) else files st0 p)" for p
    using copy_loop_completes[OF t0 all] l by simp
  have nt: "files st ?tmp = None" using b by (simp add: exists_path_def)
  have f0: "files st0 = (files st)(?tmp \<mapsto> rtext r)" by (simp add: st0_def)
  show "\<forall>p. files (snd (download_document e doc dests st)) p =
           (if p \<in> set dests \<and> \<not> exists_path e st p \<and> p \<noteq> ?tmp
            then Some (rtext r) else files st p)"
    unfolding eq l u by (auto simp: f2 ex0 f0 nt)
qed

lemma files_sleep [simp]: "files (sleep n st) = files st"
  and sent_sleep [simp]: "sent (sleep n st) = sent st"
  and sleeps_sleep [simp]: "sleeps (sleep n st) = sleeps st @ [n]"
  by (simp_all add: sleep_def)

lemma csv_name_inj: "csv_name dest k sd ed = csv_name dest k' sd ed \<longleftrightarrow> k = k'"
  by (simp add: csv_name_def)

text \<open>One account: what a completed export has done, and what a failed one has not.\<close>

lemma write_file_Inr:
  assumes "write_file e p t st = (Inr v, st')"
  shows "files st' = (files st)(p \<mapsto> t) \<and> sleeps st' = sleeps st \<and> sent st' = sent st"
  using assms
  by (auto simp: write_file_def Let_def split: if_splits option.splits)

lemma write_file_Inl:
  assumes "write_file e p t st = (Inl err, st')"
  shows "(\<forall>q. q \<noteq> p \<longrightarrow> files st' q = files st q)
       \<and> (\<forall>q. files st q \<noteq> None \<longrightarrow> files st' q \<noteq> None)
       \<and> sleeps st' = sleeps st \<and> sent st' = sent st"
  using assms
  by (auto simp: write_file_def Let_def split: if_splits option.splits)

lemma export_account_Inr:
  assumes "export_account e dest sd ed k f st = (Inr f', st')"
  shows "\<exists>t. files st' = (files st)(csv_name dest k sd ed \<mapsto> t)"
    and "sleeps st' = sleeps st"
    and "\<exists>q1 q2. sent st' = sent st @ [q1, q2]"
  using assms
  by (auto simp: export_account_def send_def
           split: sum.splits option.splits if_splits prod.splits
           dest!: write_file_Inr)

lemma export_account_Inl:
  assumes "export_account e dest sd ed k f st = (Inl err, st')"
  shows "\<forall>q. q \<noteq> csv_name dest k sd ed \<longrightarrow> files st' q = files st q"
    and "\<forall>q. files st q \<noteq> None \<longrightarrow> files st' q \<noteq> None"
    and "sleeps st' = sleeps st"
    and "\<exists>qs. sent st' = sent st @ qs"
  using assms
  by (auto simp: export_account_def send_def
           split: sum.splits option.splits if_splits prod.splits
           dest!: write_file_Inl)


lemma export_loop_step:
  "export_loop e dest sd ed accs (k # ks) f st =
     (if exported accs k
      then (case export_account e dest sd ed k f st of
              (Inl err, st1) \<Rightarrow> (Inl err, st1)
            | (Inr f1, st1) \<Rightarrow> export_loop e dest sd ed accs ks f1 (sleep 5 st1))
      else if map_of accs k = None then (Inl KeyError, st)
      else export_loop e dest sd ed accs ks f (sleep 5 st))"
  by (simp add: exported_def split: option.splits)

declare export_loop.simps(2) [simp del]

lemma export_loop_files_mono:
  "files st p \<noteq> None \<Longrightarrow> files (snd (export_loop e dest sd ed accs ks f st)) p \<noteq> None"
proof (induction ks arbitrary: f st)
  case Nil
  then show ?case by simp
next
  case (Cons k ks)
  show ?case
  proof (cases "exported accs k")
    case True
    obtain r st1 where a: "export_account e dest sd ed k f st = (r, st1)"
      by (cases "export_account e dest sd ed k f st")
    show ?thesis
    proof (cases r)
      case (Inl err)
      then show ?thesis using True a Cons.prems export_account_Inl(2)[of e dest sd ed k f st err st1]
        by (simp add: export_loop_step)
    next
      case (Inr f1)
      from export_account_Inr(1)[of e dest sd ed k f st f1 st1] a Inr Cons.prems
      have "files (sleep 5 st1) p \<noteq> None" by auto
      then have "files (snd (export_loop e dest sd ed accs ks f1 (sleep 5 st1))) p \<noteq> None"
        by (rule Cons.IH)
      then show ?thesis using True a Inr by (simp add: export_loop_step)
    qed
  next
    case False
    have "files (sleep 5 st) p \<noteq> None" using Cons.prems by simp
    then have "files (snd (export_loop e dest sd ed accs ks f (sleep 5 st))) p \<noteq> None"
      by (rule Cons.IH)
    then show ?thesis using False Cons.prems by (simp add: export_loop_step)
  qed
qed

lemma export_loop_Inr:
  assumes "export_loop e dest sd ed accs ks f st = (Inr u, st')"
  shows "sleeps st' = sleeps st @ replicate (length ks) 5
       \<and> length (sent st') = length (sent st) + 2 * length (filter (exported accs) ks)
       \<and> (\<forall>k\<in>set ks. exported accs k \<longrightarrow> files st' (csv_name dest k sd ed) \<noteq> None)
       \<and> (\<forall>p. (\<forall>k\<in>set ks. exported accs k \<longrightarrow> p \<noteq> csv_name dest k sd ed) \<longrightarrow> files st' p = files st p)"
  using assms
proof (induction ks arbitrary: f st)
  case Nil
  then show ?case by simp
next
  case (Cons k ks)
  show ?case
  proof (cases "exported accs k")
    case True
    obtain r st1 where a: "export_account e dest sd ed k f st = (r, st1)"
      by (cases "export_account e dest sd ed k f st")
    from Cons.prems True a obtain f1 where r: "r = Inr f1"
      by (cases r) (auto simp: export_loop_step)
    define st2 where "st2 = sleep 5 st1"
    have l: "export_loop e dest sd ed accs ks f1 st2 = (Inr u, st')"
      using Cons.prems True a r by (simp add: export_loop_step st2_def)
    note ih = Cons.IH[OF l]
    obtain t where f1: "files st1 = (files st)(csv_name dest k sd ed \<mapsto> t)"
      using export_account_Inr(1) a r by blast
    have s1: "sleeps st1 = sleeps st" using export_account_Inr(2) a r by blast
    obtain q1 q2 where q: "sent st1 = sent st @ [q1, q2]"
      using export_account_Inr(3) a r by blast
    have f2: "files st2 = (files st)(csv_name dest k sd ed \<mapsto> t)" by (simp add: st2_def f1)
    have "files st2 (csv_name dest k sd ed) \<noteq> None" by (simp add: f2)
    then have "files (snd (export_loop e dest sd ed accs ks f1 st2)) (csv_name dest k sd ed) \<noteq> None"
      by (rule export_loop_files_mono)
    then have here: "files st' (csv_name dest k sd ed) \<noteq> None" by (simp add: l)
    have "sleeps st' = sleeps st @ replicate (length (k # ks)) 5"
      using ih by (simp add: st2_def s1 replicate_app_Cons_same)
    moreover have "length (sent st') = length (sent st) + 2 * length (filter (exported accs) (k # ks))"
      using ih True by (simp add: st2_def q)
    moreover have "\<forall>j\<in>set (k # ks). exported accs j \<longrightarrow> files st' (csv_name dest j sd ed) \<noteq> None"
      using ih here by simp
    moreover have "\<forall>p. (\<forall>j\<in>set (k # ks). exported accs j \<longrightarrow> p \<noteq> csv_name dest j sd ed) \<longrightarrow> files st' p = files st p"
      using ih True by (simp add: f2)
    ultimately show ?thesis by blast
  next
    case False
    define st2 where "st2 = sleep 5 st"
    have l: "export_loop e dest sd ed accs ks f st2 = (Inr u, st')"
      using Cons.prems False by (auto simp: export_loop_step st2_def split: if_splits)
    note ih = Cons.IH[OF l]
    have "sleeps st' = sleeps st @ replicate (length (k # ks)) 5"
      using ih by (simp add: st2_def replicate_app_Cons_same)
    moreover have "length (sent st') = length (sent st) + 2 * length (filter (exported accs) (k # ks))"
      using ih False by (simp add: st2_def)
    moreover have "\<forall>j\<in>set (k # ks). exported accs j \<longrightarrow> files st' (csv_name dest j sd ed) \<noteq> None"
      using ih False by simp
    moreover have "\<forall>p. (\<forall>j\<in>set (k # ks). exported accs j \<longrightarrow> p \<noteq> csv_name dest j sd ed) \<longrightarrow> files st' p = files st p"
      using ih False by (simp add: st2_def)
    ultimately show ?thesis by blast
  qed
qed


text \<open>The loop over a list that continues: the form goes on as the first part left it.\<close>

lemma export_loop_append_Inl:
  "export_loop e dest sd ed accs xs f st = (Inl err, st1) \<Longrightarrow>
   export_loop e dest sd ed accs (xs @ ys) f st = (Inl err, st1)"
proof (induction xs arbitrary: f st)
  case Nil
  then show ?case by simp
next
  case (Cons k ks)
  then show ?case
    by (cases "export_account e dest sd ed k f st")
       (auto simp: export_loop_step split: if_splits sum.splits)
qed

lemma export_loop_append_Inr:
  "export_loop e dest sd ed accs xs f st = (Inr u, st1) \<Longrightarrow>
   \<exists>f1. \<forall>ys. export_loop e dest sd ed accs (xs @ ys) f st = export_loop e dest sd ed accs ys f1 st1"
proof (induction xs arbitrary: f st)
  case Nil
  then show ?case by auto
next
  case (Cons k ks)
  show ?case
  proof (cases "exported accs k")
    case True
    obtain r st2 where a: "export_account e dest sd ed k f st = (r, st2)"
      by (cases "export_account e dest sd ed k f st")
    from Cons.prems True a obtain f2 where r: "r = Inr f2"
      by (cases r) (auto simp: export_loop_step)
    have "export_loop e dest sd ed accs ks f2 (sleep 5 st2) = (Inr u, st1)"
      using Cons.prems True a r by (simp add: export_loop_step)
    then obtain f1 where
      "\<forall>ys. export_loop e dest sd ed accs (ks @ ys) f2 (sleep 5 st2) = export_loop e dest sd ed accs ys f1 st1"
      using Cons.IH by blast
    then have "\<forall>ys. export_loop e dest sd ed accs ((k # ks) @ ys) f st = export_loop e dest sd ed accs ys f1 st1"
      using True a r by (simp add: export_loop_step)
    then show ?thesis ..
  next
    case False
    have "export_loop e dest sd ed accs ks f (sleep 5 st) = (Inr u, st1)"
      using Cons.prems False by (auto simp: export_loop_step split: if_splits)
    then obtain f1 where
      "\<forall>ys. export_loop e dest sd ed accs (ks @ ys) f (sleep 5 st) = export_loop e dest sd ed accs ys f1 st1"
      using Cons.IH by blast
    moreover have "map_of accs k \<noteq> None"
      using Cons.prems False by (auto simp: export_loop_step split: if_splits)
    ultimately have "\<forall>ys. export_loop e dest sd ed accs ((k # ks) @ ys) f st = export_loop e dest sd ed accs ys f1 st1"
      using False by (auto simp: export_loop_step)
    then show ?thesis ..
  qed
qed

lemma export_loop_single_Inl:
  assumes "export_loop e dest sd ed accs [k] f st = (Inl err, st')"
  shows "\<forall>q. q \<noteq> csv_name dest k sd ed \<longrightarrow> files st' q = files st q"
  using assms export_account_Inl(1)[of e dest sd ed k f st err st']
  by (cases "export_account e dest sd ed k f st")
     (auto simp: export_loop_step split: if_splits sum.splits)

lemma nav_urls_no_RuntimeError: "fst (nav_urls page st) \<noteq> Inl (RuntimeError m)"
  by (simp add: nav_urls_def Let_def split: option.splits)

lemma login_fetched:
  assumes "http e (sent st) (GET (base_url @ login_url)) = Inr r"
    and "page_forms e (rtext r) = Inr fs"
    and "find_form ''j_username'' fs = Some f"
    and "has_field ''j_password'' f" and "action f = Some a"
    and "http e (sent st @ [GET (base_url @ login_url)])
           (POST (base_url @ a)
              (AList.update ''j_password'' (getpass e)
                 (AList.update ''j_username'' username (form_fields f)))) = Inr r2"
  shows "fst (login e username st) =
           (if find (\<lambda>x. x = NavStr ''Finanzstatus'') (soup e (rtext r2)) = None
            then Inl (RuntimeError ''Login to DKB Online Banking failed.'')
            else fst (nav_urls (soup e (rtext r2))
                   ((say ''Login to DKB Online Banking'' st)
                      \<lparr>sent := sent st @ [GET (base_url @ login_url),
                         POST (base_url @ a)
                           (AList.update ''j_password'' (getpass e)
                              (AList.update ''j_username'' username (form_fields f)))]\<rparr>)))"
proof -
  have u: "has_field ''j_username'' f"
    using assms(3) by (auto simp: find_form_def find_Some_iff)
  have p: "has_field ''j_password'' (f\<lparr>form_fields := AList.update ''j_username'' username (form_fields f)\<rparr>)"
    using assms(4) by (simp add: has_field_def AList.dom_update)
  show ?thesis
    using assms u p by (simp add: login_def send_def set_field_def)
qed



lemma download_document_fresh_destination:
  assumes "http e (sent st) (GET (base_url @ url doc)) = Inr r"
    and "fst (download_document e doc dests st) = Inr True"
    and "d \<in> set dests" and "\<not> exists_path e st d" and "d \<noteq> mkstemp e (exists_path e st)"
  shows "files (snd (download_document e doc dests st)) d = Some (rtext r)"
  using download_document_returns(4) [OF assms(1,2)] assms(3-5) by simp



lemma export_all_fetched:
  assumes "umsatz_url st = Some u"
    and "http e (sent st) (GET (base_url @ u)) = Inr r"
    and "page_forms e (rtext r) = Inr fs"
    and "find_form ''slAllAccounts'' fs = Some f"
    and "accounts st = Some accs"
  shows "get_all_banking_account_transactions e (DateArg sd) (DateArg ed) dest st =
           export_loop e dest (strftime sd) (strftime ed) accs (map fst accs) f
             (st\<lparr>sent := sent st @ [GET (base_url @ u)]\<rparr>)"
  using assms by (simp add: get_all_banking_account_transactions_def send_def)

lemma export_all_Inr:
  assumes "get_all_banking_account_transactions e (DateArg sd) (DateArg ed) dest st = (Inr v, st')"
    and "accounts st = Some accs"
  shows "\<exists>u r fs f. umsatz_url st = Some u \<and> http e (sent st) (GET (base_url @ u)) = Inr r
           \<and> page_forms e (rtext r) = Inr fs \<and> find_form ''slAllAccounts'' fs = Some f
           \<and> export_loop e dest (strftime sd) (strftime ed) accs (map fst accs) f
                (st\<lparr>sent := sent st @ [GET (base_url @ u)]\<rparr>) = (Inr v, st')"
  using assms
  by (auto simp: get_all_banking_account_transactions_def send_def
           split: option.splits sum.splits)

lemma exported_distinct:
  assumes "distinct (map fst accs)" and "(k, name) \<in> set accs"
  shows "exported accs k \<longleftrightarrow> \<not> contains name ''PayPal''"
  using assms by (simp add: exported_def)

lemma exported_member:
  "exported accs k \<Longrightarrow> \<exists>name. (k, name) \<in> set accs \<and> \<not> contains name ''PayPal''"
  by (auto simp: exported_def split: option.splits dest: map_of_SomeD)

lemma length_filter_exported:
  assumes "distinct (map fst accs)"
  shows "length (filter (exported accs) (map fst accs))
           = length (filter (\<lambda>(k, name). \<not> contains name ''PayPal'') accs)"
proof -
  have "filter (exported accs \<circ> fst) accs = filter (\<lambda>(k, name). \<not> contains name ''PayPal'') accs"
    using exported_distinct [OF assms] by (intro filter_cong) auto
  then show ?thesis by (simp add: filter_map)
qed


text \<open>What the loop over the destinations adds to the log: copies of the temporary file.\<close>

lemma copy_loop_fslog:
  assumes "files st tmp = Some b"
  shows "\<exists>ops. fslog (snd (copy_loop e tmp dests st)) = fslog st @ ops
           \<and> (\<forall>op\<in>set ops. \<exists>d\<in>set dests. \<not> exists_path e st d \<and> op = Write d b)"
  using assms
proof (induction dests arbitrary: st)
  case Nil
  then show ?case by simp
next
  case (Cons d dests)
  show ?case
  proof (cases "exists_path e st d")
    case True
    define st2 where "st2 = print_line ([CHR 0x22] @ d @ [CHR 0x22] @ '' already exists'') (say (''Copy to '' @ d) st)"
    have eq: "copy_loop e tmp (d # dests) st = copy_loop e tmp dests st2"
      using True by (simp add: Let_def st2_def)
    have "files st2 tmp = Some b" using Cons.prems by (simp add: st2_def)
    from Cons.IH [OF this] obtain ops where
      o: "fslog (snd (copy_loop e tmp dests st2)) = fslog st2 @ ops"
        "\<forall>op\<in>set ops. \<exists>x\<in>set dests. \<not> exists_path e st2 x \<and> op = Write x b"
      by blast
    have l: "fslog st2 = fslog st" and x: "exists_path e st2 = exists_path e st"
      by (simp_all add: st2_def)
    have "fslog (snd (copy_loop e tmp (d # dests) st)) = fslog st @ ops"
      unfolding eq using o(1) l by simp
    moreover have "\<forall>op\<in>set ops. \<exists>x\<in>set (d # dests). \<not> exists_path e st x \<and> op = Write x b"
      using o(2) x by auto
    ultimately show ?thesis by blast
  next
    case False
    show ?thesis
    proof (cases "creatable e d")
      case no: False
      have "copy_loop e tmp (d # dests) st = (Inl OSError, say (''Copy to '' @ d) st)"
        using False no Cons.prems by (simp add: Let_def copyfile_def)
      then have "fslog (snd (copy_loop e tmp (d # dests) st)) = fslog st @ []" by simp
      then show ?thesis by (metis empty_iff empty_set)
    next
      case True
      define st2 where "st2 = put_file d b (say (''Copy to '' @ d) st)"
      have eq: "copy_loop e tmp (d # dests) st = copy_loop e tmp dests st2"
        using False True Cons.prems by (simp add: Let_def copyfile_def st2_def)
      have "d \<noteq> tmp" using False Cons.prems by (auto simp: exists_path_def)
      then have "files st2 tmp = Some b" using Cons.prems by (simp add: st2_def)
      from Cons.IH [OF this] obtain ops where
        o: "fslog (snd (copy_loop e tmp dests st2)) = fslog st2 @ ops"
          "\<forall>op\<in>set ops. \<exists>x\<in>set dests. \<not> exists_path e st2 x \<and> op = Write x b"
        by blast
      have l: "fslog st2 = fslog st @ [Write d b]" by (simp add: st2_def)
      have x: "exists_path e st2 y \<longleftrightarrow> exists_path e st y \<or> y = d" for y
        by (auto simp: exists_path_def st2_def)
      have "fslog (snd (copy_loop e tmp (d # dests) st)) = fslog st @ (Write d b # ops)"
        unfolding eq using o(1) l by simp
      moreover have "\<forall>op\<in>set (Write d b # ops). \<exists>x\<in>set (d # dests). \<not> exists_path e st x \<and> op = Write x b"
        using o(2) x False by auto
      ultimately show ?thesis by blast
    qed
  qed
qed

lemma download_document_fslog:
  assumes get: "http e (sent st) (GET (base_url @ url doc)) = Inr r"
    and ok: "fst (download_document e doc dests st) = Inr True"
  shows "\<exists>copies. fslog (snd (download_document e doc dests st))
             = fslog st @ Write (mkstemp e (exists_path e st)) (rtext r) # copies
                 @ [Unlink (mkstemp e (exists_path e st))]
           \<and> (\<forall>op\<in>set copies. \<exists>d\<in>set dests.
                 d \<noteq> mkstemp e (exists_path e st) \<and> op = Write d (rtext r))"
proof -
  let ?tmp = "mkstemp e (exists_path e st)"
  note a = download_document_returns(1) [OF get ok] and b = download_document_returns(2) [OF get ok]
  define st0 where "st0 = put_file ?tmp (rtext r)
                 ((say (''Download document '' @ [CHR 0x27] @ title doc @ [CHR 0x27]) st)
                    \<lparr>sent := sent st @ [GET (base_url @ url doc)]\<rparr>)"
  have eq: "download_document e doc dests st =
     (case copy_loop e ?tmp dests st0 of
        (Inl err, st2) \<Rightarrow> (Inl err, st2)
      | (Inr u, st2) \<Rightarrow> (Inr True, unlink ?tmp st2))"
    using get a b st0_def by (rule download_document_fetched)
  obtain u st2 where l: "copy_loop e ?tmp dests st0 = (u, st2)" by (cases "copy_loop e ?tmp dests st0")
  have u: "u = Inr ()" using ok unfolding eq l by (cases u) auto
  have t0: "files st0 ?tmp = Some (rtext r)" by (simp add: st0_def)
  have l0: "fslog st0 = fslog st @ [Write ?tmp (rtext r)]" by (simp add: st0_def)
  have ex0: "exists_path e st0 ?tmp" by (simp add: exists_path_def t0)
  from copy_loop_fslog [OF t0, of e dests] l obtain ops where
    o: "fslog st2 = fslog st0 @ ops"
      "\<forall>op\<in>set ops. \<exists>d\<in>set dests. \<not> exists_path e st0 d \<and> op = Write d (rtext r)"
    by auto
  have "fslog (snd (download_document e doc dests st)) = fslog st @ Write ?tmp (rtext r) # ops @ [Unlink ?tmp]"
    unfolding eq l u using o(1) l0 by simp
  moreover have "\<forall>op\<in>set ops. \<exists>d\<in>set dests. d \<noteq> ?tmp \<and> op = Write d (rtext r)"
    using o(2) ex0 by metis
  ultimately show ?thesis by blast
qed

lemma download_document_not_fetched_fslog:
  assumes "http e (sent st) (GET (base_url @ url doc)) = Inr r"
    and "status_code r \<noteq> 200"
  shows "fslog (snd (download_document e doc dests st)) = fslog st"
  using assms by (simp add: download_document_def send_def)

section \<open>The claims\<close>

text \<open>
  C9. The filename of the claim is the last path segment of the url with the query
  string stripped, suffixed with \<^verbatim>\<open>.pdf\<close> (\<open>spec_filename\<close>). Line 144 splits the whole
  url at \<open>/\<close> before it cuts at \<open>?\<close>: on the url \<^verbatim>\<open>/docs/abc?x=a/b\<close> the code yields
  \<^verbatim>\<open>b.pdf\<close>, where the claim's filename is \<^verbatim>\<open>abc.pdf\<close>.
\<close>

theorem filename_of_query_slash:
  "filename_of ''/docs/abc?x=a/b'' = ''b.pdf'' \<and> spec_filename ''/docs/abc?x=a/b'' = ''abc.pdf''"
  by (simp add: filename_of_def spec_filename_def)

text \<open>
  C8 (amended). When \<open>logout\<close> returns, the HTTP client has been closed, whether or not
  the status of the logout request was 200 (the result says which); the stored
  navigation URLs are as they were.
\<close>

theorem logout_closes_client:
  "fst (logout e st) = Inr b \<Longrightarrow>
     closed (snd (logout e st))
     \<and> logout_url (snd (logout e st)) = logout_url st
     \<and> postbox_url (snd (logout e st)) = postbox_url st
     \<and> umsatz_url (snd (logout e st)) = umsatz_url st
     \<and> (\<exists>u r. logout_url st = Some u \<and> http e (sent st) (GET (base_url @ u)) = Inr r
              \<and> b = (status_code r = 200))"
  by (auto simp: logout_def send_def say_def print_line_def Let_def
           split: option.splits sum.splits if_splits)

theorem logout_closes_client_witness:
  "fst (logout fx_env (fx_state\<lparr>logout_url := Some ''/gone''\<rparr>)) = Inr False
   \<and> closed (snd (logout fx_env (fx_state\<lparr>logout_url := Some ''/gone''\<rparr>)))"
proof -
  have h: "fst (logout fx_env (fx_state\<lparr>logout_url := Some ''/gone''\<rparr>)) = Inr False"
    by code_simp
  from logout_closes_client [OF h] h show ?thesis by simp
qed

theorem logout_keeps_urls_counterexample:
  "fst (logout fx_env fx_state) = Inr True
   \<and> logout_url (snd (logout fx_env fx_state)) = Some ''/logout''
   \<and> postbox_url (snd (logout fx_env fx_state)) = Some ''/postbox''
   \<and> umsatz_url (snd (logout fx_env fx_state)) = Some ''/umsatz''"
  by code_simp

text \<open>
  C6 (amended). Once the login page has been fetched and parsed (lxml raises on an
  empty document, before any form is looked at): when none of its forms has a field
  \<^verbatim>\<open>j_username\<close>, \<open>login\<close> raises \<^verbatim>\<open>RuntimeError('Login Form not found.')\<close>; when the
  form is there (with its password field and its action) and the answer to the POST
  has no string \<^verbatim>\<open>Finanzstatus\<close>, it raises
  \<^verbatim>\<open>RuntimeError('Login to DKB Online Banking failed.')\<close>; when the form is there and
  the answer has the string, it raises neither.
\<close>

theorem login_errors:
  assumes "http e (sent st) (GET (base_url @ login_url)) = Inr r"
    and "page_forms e (rtext r) = Inr fs"
  shows "((\<forall>f\<in>set fs. \<not> has_field ''j_username'' f) \<longrightarrow>
            fst (login e username st) = Inl (RuntimeError ''Login Form not found.''))
       \<and> (\<forall>f a r2.
            find_form ''j_username'' fs = Some f
            \<and> has_field ''j_password'' f \<and> action f = Some a
            \<and> http e (sent st @ [GET (base_url @ login_url)])
                 (POST (base_url @ a)
                    (AList.update ''j_password'' (getpass e)
                       (AList.update ''j_username'' username (form_fields f)))) = Inr r2
            \<longrightarrow>
            (find (\<lambda>x. x = NavStr ''Finanzstatus'') (soup e (rtext r2)) = None \<longrightarrow>
               fst (login e username st) = Inl (RuntimeError ''Login to DKB Online Banking failed.''))
            \<and> (find (\<lambda>x. x = NavStr ''Finanzstatus'') (soup e (rtext r2)) \<noteq> None \<longrightarrow>
                 fst (login e username st) \<noteq> Inl (RuntimeError ''Login Form not found.'')
                 \<and> fst (login e username st) \<noteq> Inl (RuntimeError ''Login to DKB Online Banking failed.'')))"
proof (intro conjI impI allI)
  {
    assume "\<forall>f\<in>set fs. \<not> has_field ''j_username'' f"
    then have "find_form ''j_username'' fs = None"
      by (simp add: find_form_def find_None_iff)
    then show "fst (login e username st) = Inl (RuntimeError ''Login Form not found.'')"
      using assms by (simp add: login_def send_def)
  }
  fix f a r2
  assume h: "find_form ''j_username'' fs = Some f
            \<and> has_field ''j_password'' f \<and> action f = Some a
            \<and> http e (sent st @ [GET (base_url @ login_url)])
                 (POST (base_url @ a)
                    (AList.update ''j_password'' (getpass e)
                       (AList.update ''j_username'' username (form_fields f)))) = Inr r2"
  note eq = login_fetched [OF assms, of f a username r2]
  {
    assume "find (\<lambda>x. x = NavStr ''Finanzstatus'') (soup e (rtext r2)) = None"
    then show "fst (login e username st) = Inl (RuntimeError ''Login to DKB Online Banking failed.'')"
      using eq h by simp
  }
  {
    assume m: "find (\<lambda>x. x = NavStr ''Finanzstatus'') (soup e (rtext r2)) \<noteq> None"
    then show "fst (login e username st) \<noteq> Inl (RuntimeError ''Login Form not found.'')"
      using eq h nav_urls_no_RuntimeError by simp
    from m show "fst (login e username st) \<noteq> Inl (RuntimeError ''Login to DKB Online Banking failed.'')"
      using eq h nav_urls_no_RuntimeError by simp
  }
qed

theorem login_errors_witness:
  "fst (login (fx_env\<lparr>forms := (\<lambda>t. Inr [fx_search_form])\<rparr>) ''alice'' fx_state)
     = Inl (RuntimeError ''Login Form not found.'')
   \<and> fst (login (fx_env\<lparr>getpass := ''wrong''\<rparr>) ''alice'' fx_state)
       = Inl (RuntimeError ''Login to DKB Online Banking failed.'')
   \<and> fst (login fx_env ''alice'' fx_state) \<noteq> Inl (RuntimeError ''Login Form not found.'')
   \<and> fst (login fx_env ''alice'' fx_state) \<noteq> Inl (RuntimeError ''Login to DKB Online Banking failed.'')"
proof -
  let ?login = "\<lparr>status_code = 200, rtext = ''<login>''\<rparr>"
  let ?form = "\<lparr>action = Some ''/login'', form_fields = [(''j_username'', []), (''j_password'', [])]\<rparr>"
  let ?e1 = "fx_env\<lparr>forms := (\<lambda>t. Inr [fx_search_form])\<rparr>" and ?e2 = "fx_env\<lparr>getpass := ''wrong''\<rparr>"
  have g1: "http ?e1 (sent fx_state) (GET (base_url @ login_url)) = Inr ?login" by code_simp
  have p1: "page_forms ?e1 (rtext ?login) = Inr [fx_search_form]" by code_simp
  have n1: "\<forall>f\<in>set [fx_search_form]. \<not> has_field ''j_username'' f" by code_simp
  have a: "fst (login ?e1 ''alice'' fx_state) = Inl (RuntimeError ''Login Form not found.'')"
    using login_errors [OF g1 p1, of "''alice''"] n1 by blast
  have g2: "http ?e2 (sent fx_state) (GET (base_url @ login_url)) = Inr ?login" by code_simp
  have p2: "page_forms ?e2 (rtext ?login) = Inr [fx_search_form, ?form]" by code_simp
  have f2: "find_form ''j_username'' [fx_search_form, ?form] = Some ?form
            \<and> has_field ''j_password'' ?form \<and> action ?form = Some ''/login''
            \<and> http ?e2 (sent fx_state @ [GET (base_url @ login_url)])
                 (POST (base_url @ ''/login'')
                    (AList.update ''j_password'' (getpass ?e2)
                       (AList.update ''j_username'' ''alice'' (form_fields ?form))))
                = Inr \<lparr>status_code = 200, rtext = ''<denied>''\<rparr>"
    by code_simp
  have m2: "find (\<lambda>x. x = NavStr ''Finanzstatus'') (soup ?e2 (rtext \<lparr>status_code = 200, rtext = ''<denied>''\<rparr>)) = None"
    by code_simp
  have b: "fst (login ?e2 ''alice'' fx_state) = Inl (RuntimeError ''Login to DKB Online Banking failed.'')"
    using login_errors [OF g2 p2, of "''alice''"] f2 m2 by blast
  have g3: "http fx_env (sent fx_state) (GET (base_url @ login_url)) = Inr ?login" by code_simp
  have p3: "page_forms fx_env (rtext ?login) = Inr [fx_search_form, ?form]" by code_simp
  have f3: "find_form ''j_username'' [fx_search_form, ?form] = Some ?form
            \<and> has_field ''j_password'' ?form \<and> action ?form = Some ''/login''
            \<and> http fx_env (sent fx_state @ [GET (base_url @ login_url)])
                 (POST (base_url @ ''/login'')
                    (AList.update ''j_password'' (getpass fx_env)
                       (AList.update ''j_username'' ''alice'' (form_fields ?form))))
                = Inr \<lparr>status_code = 200, rtext = ''<home>''\<rparr>"
    by code_simp
  have m3: "find (\<lambda>x. x = NavStr ''Finanzstatus'') (soup fx_env (rtext \<lparr>status_code = 200, rtext = ''<home>''\<rparr>)) \<noteq> None"
    by code_simp
  have c: "fst (login fx_env ''alice'' fx_state) \<noteq> Inl (RuntimeError ''Login Form not found.'')
         \<and> fst (login fx_env ''alice'' fx_state) \<noteq> Inl (RuntimeError ''Login to DKB Online Banking failed.'')"
    using login_errors [OF g3 p3, of "''alice''"] f3 m3 by blast
  from a b c show ?thesis by blast
qed

theorem login_empty_page_counterexample:
  "http fx_empty_env (sent fx_state) (GET (base_url @ login_url)) = Inr \<lparr>status_code = 200, rtext = []\<rparr>
   \<and> fst (login fx_empty_env ''alice'' fx_state) = Inl ParserError"
  by code_simp




text \<open>
  C7. Take two runs of \<open>download_document\<close> for the same document and destinations
  (the second from any state, in particular from the one the first run left). A file
  that is there before a run has the same bytes after it, whatever the run's outcome.
  A destination that is absent before both runs, and that is not the temporary name,
  holds after each completed run the bytes fetched in that run: the same bytes both
  times when the server serves the same bytes both times.
\<close>

theorem download_document_rerun:
  assumes "download_document e doc dests sta = (resa, sta')"
    and "download_document e doc dests stb = (resb, stb')"
  shows "(\<forall>p c. files sta p = Some c \<longrightarrow> files sta' p = Some c)
       \<and> (\<forall>p c. files stb p = Some c \<longrightarrow> files stb' p = Some c)
       \<and> (\<forall>d ra rb.
            d \<in> set dests \<and> \<not> exists_path e sta d \<and> \<not> exists_path e stb d
            \<and> d \<noteq> mkstemp e (exists_path e sta) \<and> d \<noteq> mkstemp e (exists_path e stb)
            \<and> resa = Inr True \<and> resb = Inr True
            \<and> http e (sent sta) (GET (base_url @ url doc)) = Inr ra
            \<and> http e (sent stb) (GET (base_url @ url doc)) = Inr rb
            \<and> rtext ra = rtext rb
            \<longrightarrow> files sta' d = Some (rtext ra) \<and> files stb' d = files sta' d)"
proof (intro conjI allI impI)
  fix p c
  assume "files sta p = Some c"
  then show "files sta' p = Some c"
    using download_document_keeps [of sta p c e doc dests] assms(1) by simp
next
  fix p c
  assume "files stb p = Some c"
  then show "files stb' p = Some c"
    using download_document_keeps [of stb p c e doc dests] assms(2) by simp
next
  fix d ra rb
  assume h: "d \<in> set dests \<and> \<not> exists_path e sta d \<and> \<not> exists_path e stb d
            \<and> d \<noteq> mkstemp e (exists_path e sta) \<and> d \<noteq> mkstemp e (exists_path e stb)
            \<and> resa = Inr True \<and> resb = Inr True
            \<and> http e (sent sta) (GET (base_url @ url doc)) = Inr ra
            \<and> http e (sent stb) (GET (base_url @ url doc)) = Inr rb
            \<and> rtext ra = rtext rb"
  have a: "files sta' d = Some (rtext ra)"
    using download_document_fresh_destination [of e sta doc ra dests d] h assms(1) by simp
  have b: "files stb' d = Some (rtext rb)"
    using download_document_fresh_destination [of e stb doc rb dests d] h assms(2) by simp
  from a show "files sta' d = Some (rtext ra)" .
  from a b h show "files stb' d = files sta' d" by simp
qed

theorem download_document_rerun_witness:
  "files (snd (download_document fx_env fx_document [''old.pdf'', ''new.pdf''] fx_state)) ''old.pdf''
     = Some ''OLD''
   \<and> files (snd (download_document fx_env fx_document [''old.pdf'', ''new.pdf''] fx_removed)) ''old.pdf''
       = Some ''OLD''
   \<and> files (snd (download_document fx_env fx_document [''old.pdf'', ''new.pdf''] fx_state)) ''new.pdf''
       = Some ''%PDF-1.4''
   \<and> files (snd (download_document fx_env fx_document [''old.pdf'', ''new.pdf''] fx_removed)) ''new.pdf''
       = files (snd (download_document fx_env fx_document [''old.pdf'', ''new.pdf''] fx_state)) ''new.pdf''"
proof -
  let ?dests = "[''old.pdf'', ''new.pdf'']"
  let ?r = "\<lparr>status_code = 200, rtext = ''%PDF-1.4''\<rparr>"
  have "fst (download_document fx_env fx_document ?dests fx_state) = Inr True"
    by code_simp
  then have ra: "download_document fx_env fx_document ?dests fx_state
              = (Inr True, snd (download_document fx_env fx_document ?dests fx_state))"
    by (metis prod.collapse)
  have "fst (download_document fx_env fx_document ?dests fx_removed) = Inr True"
    by code_simp
  then have rb: "download_document fx_env fx_document ?dests fx_removed
              = (Inr True, snd (download_document fx_env fx_document ?dests fx_removed))"
    by (metis prod.collapse)
  have oa: "files fx_state ''old.pdf'' = Some ''OLD''" by code_simp
  have ob: "files fx_removed ''old.pdf'' = Some ''OLD''" by code_simp
  have h: "''new.pdf'' \<in> set ?dests \<and> \<not> exists_path fx_env fx_state ''new.pdf''
            \<and> \<not> exists_path fx_env fx_removed ''new.pdf''
            \<and> ''new.pdf'' \<noteq> mkstemp fx_env (exists_path fx_env fx_state)
            \<and> ''new.pdf'' \<noteq> mkstemp fx_env (exists_path fx_env fx_removed)
            \<and> http fx_env (sent fx_state) (GET (base_url @ url fx_document)) = Inr ?r
            \<and> http fx_env (sent fx_removed) (GET (base_url @ url fx_document)) = Inr ?r"
    by code_simp
  note t = download_document_rerun [OF ra rb]
  have k1: "files (snd (download_document fx_env fx_document ?dests fx_state)) ''old.pdf'' = Some ''OLD''"
    using t [THEN conjunct1, rule_format, OF oa] .
  have k2: "files (snd (download_document fx_env fx_document ?dests fx_removed)) ''old.pdf'' = Some ''OLD''"
    using t [THEN conjunct2, THEN conjunct1, rule_format, OF ob] .
  have k3: "files (snd (download_document fx_env fx_document ?dests fx_state)) ''new.pdf'' = Some (rtext ?r)
          \<and> files (snd (download_document fx_env fx_document ?dests fx_removed)) ''new.pdf''
              = files (snd (download_document fx_env fx_document ?dests fx_state)) ''new.pdf''"
    by (rule t [THEN conjunct2, THEN conjunct2, rule_format, of "''new.pdf''" ?r ?r])
       (use h in blast)
  have r: "rtext ?r = ''%PDF-1.4''" by simp
  from k1 k2 k3 show ?thesis unfolding r by blast
qed




text \<open>
  C4 (amended). \<open>download_document\<close> copies the fetched bytes to exactly one
  temporary file and deletes that file before it returns \<open>True\<close>: what a run that
  returns \<open>True\<close> has done to the files is to write the temporary file with the
  fetched bytes, then to copy those bytes to destinations, then to remove the
  temporary file; after the return the temporary name is free again and no path
  outside the destinations has changed. When the fetch has a status other than 200,
  \<^verbatim>\<open>RuntimeError('Download failed.')\<close> is raised before any file is created.
\<close>

theorem download_document_temporary_file:
  assumes "http e (sent st) (GET (base_url @ url doc)) = Inr r"
  shows "(fst (download_document e doc dests st) = Inr True \<longrightarrow>
            (\<exists>copies. fslog (snd (download_document e doc dests st))
                 = fslog st @ Write (mkstemp e (exists_path e st)) (rtext r) # copies
                     @ [Unlink (mkstemp e (exists_path e st))]
               \<and> (\<forall>op\<in>set copies. \<exists>d\<in>set dests.
                     d \<noteq> mkstemp e (exists_path e st) \<and> op = Write d (rtext r)))
            \<and> files (snd (download_document e doc dests st)) (mkstemp e (exists_path e st)) = None
            \<and> (\<forall>p. p \<notin> set dests \<longrightarrow>
                  files (snd (download_document e doc dests st)) p = files st p))
       \<and> (status_code r \<noteq> 200 \<longrightarrow>
            fst (download_document e doc dests st) = Inl (RuntimeError ''Download failed.'')
            \<and> files (snd (download_document e doc dests st)) = files st
            \<and> fslog (snd (download_document e doc dests st)) = fslog st)"
proof (intro conjI impI allI)
  assume ok: "fst (download_document e doc dests st) = Inr True"
  show "\<exists>copies. fslog (snd (download_document e doc dests st))
                 = fslog st @ Write (mkstemp e (exists_path e st)) (rtext r) # copies
                     @ [Unlink (mkstemp e (exists_path e st))]
               \<and> (\<forall>op\<in>set copies. \<exists>d\<in>set dests.
                     d \<noteq> mkstemp e (exists_path e st) \<and> op = Write d (rtext r))"
    using assms ok by (rule download_document_fslog)
  note f = download_document_returns(4) [OF assms ok]
  have "files st (mkstemp e (exists_path e st)) = None"
    using download_document_returns(2) [OF assms ok] by (simp add: exists_path_def)
  then show "files (snd (download_document e doc dests st)) (mkstemp e (exists_path e st)) = None"
    using f by simp
  fix p
  assume "p \<notin> set dests"
  then show "files (snd (download_document e doc dests st)) p = files st p"
    using f by simp
next
  assume bad: "status_code r \<noteq> 200"
  then show "fst (download_document e doc dests st) = Inl (RuntimeError ''Download failed.'')"
    using download_document_not_fetched(2) [OF assms] by blast
  from bad show "files (snd (download_document e doc dests st)) = files st"
    using download_document_not_fetched(1) [OF assms] by blast
  from assms bad show "fslog (snd (download_document e doc dests st)) = fslog st"
    by (rule download_document_not_fetched_fslog)
qed

theorem download_document_temporary_file_witness:
  "(\<exists>copies. fslog (snd (download_document fx_env fx_document [''old.pdf'', ''new.pdf''] fx_state))
       = fslog fx_state @ Write ''/tmp/tmp0'' ''%PDF-1.4'' # copies @ [Unlink ''/tmp/tmp0''])
   \<and> files (snd (download_document fx_env fx_document [''old.pdf'', ''new.pdf''] fx_state)) ''/tmp/tmp0''
       = None
   \<and> fst (download_document fx_env fx_missing [''new.pdf''] fx_state)
       = Inl (RuntimeError ''Download failed.'')
   \<and> fslog (snd (download_document fx_env fx_missing [''new.pdf''] fx_state)) = fslog fx_state"
proof -
  let ?r = "\<lparr>status_code = 200, rtext = ''%PDF-1.4''\<rparr>" and ?n = "\<lparr>status_code = 404, rtext = []\<rparr>"
  have g: "http fx_env (sent fx_state) (GET (base_url @ url fx_document)) = Inr ?r" by code_simp
  have ok: "fst (download_document fx_env fx_document [''old.pdf'', ''new.pdf''] fx_state) = Inr True"
    by code_simp
  have m: "mkstemp fx_env (exists_path fx_env fx_state) = ''/tmp/tmp0''" by (simp add: fx_env_def)
  have r: "rtext ?r = ''%PDF-1.4''" by simp
  note t = download_document_temporary_file [OF g, of "[''old.pdf'', ''new.pdf'']", THEN conjunct1, THEN mp, OF ok]
  have a1: "\<exists>copies. fslog (snd (download_document fx_env fx_document [''old.pdf'', ''new.pdf''] fx_state))
       = fslog fx_state @ Write ''/tmp/tmp0'' ''%PDF-1.4'' # copies @ [Unlink ''/tmp/tmp0'']"
    using t unfolding m r by blast
  have a2: "files (snd (download_document fx_env fx_document [''old.pdf'', ''new.pdf''] fx_state)) ''/tmp/tmp0'' = None"
    using t unfolding m by blast
  have g2: "http fx_env (sent fx_state) (GET (base_url @ url fx_missing)) = Inr ?n" by code_simp
  have s2: "status_code ?n \<noteq> 200" by simp
  have b: "fst (download_document fx_env fx_missing [''new.pdf''] fx_state)
             = Inl (RuntimeError ''Download failed.'')
           \<and> fslog (snd (download_document fx_env fx_missing [''new.pdf''] fx_state)) = fslog fx_state"
    using download_document_temporary_file [OF g2, of "[''new.pdf'']"] s2 by blast
  from a1 a2 b show ?thesis by blast
qed

theorem download_document_temporary_file_counterexample:
  "fst (download_document fx_env fx_document [''/nodir/a.pdf''] fx_state) = Inl OSError
   \<and> files fx_state ''/tmp/tmp0'' = None
   \<and> files (snd (download_document fx_env fx_document [''/nodir/a.pdf''] fx_state)) ''/tmp/tmp0''
       = Some ''%PDF-1.4''
   \<and> fslog (snd (download_document fx_env fx_document [''/nodir/a.pdf''] fx_state))
       = [Write ''/tmp/tmp0'' ''%PDF-1.4'']"
  by code_simp

text \<open>
  C1 (amended). For every run of \<open>get_all_banking_account_transactions\<close> that
  completes over a directory of accounts (a dict: its keys are distinct): one export
  file, under its own name, has been written for every account whose name does not
  contain \<^verbatim>\<open>PayPal\<close>; an account whose name contains \<^verbatim>\<open>PayPal\<close> has been skipped, with no
  request sent and no file written for it; no other path has changed. The pause of 5
  seconds has been taken once for every account of the directory, the skipped ones
  included.
\<close>

theorem export_all_accounts:
  assumes "get_all_banking_account_transactions e (DateArg sd) (DateArg ed) dest st = (Inr v, st')"
    and "accounts st = Some accs" and "distinct (map fst accs)"
  shows "(\<forall>k name. (k, name) \<in> set accs \<and> \<not> contains name ''PayPal'' \<longrightarrow>
            files st' (csv_name dest k (strftime sd) (strftime ed)) \<noteq> None)
       \<and> (\<forall>k name. (k, name) \<in> set accs \<and> contains name ''PayPal'' \<longrightarrow>
            files st' (csv_name dest k (strftime sd) (strftime ed))
              = files st (csv_name dest k (strftime sd) (strftime ed)))
       \<and> (\<forall>p. files st' p \<noteq> files st p \<longrightarrow>
            (\<exists>k name. (k, name) \<in> set accs \<and> \<not> contains name ''PayPal''
                \<and> p = csv_name dest k (strftime sd) (strftime ed)))
       \<and> distinct (map (\<lambda>(k, name). csv_name dest k (strftime sd) (strftime ed)) accs)
       \<and> length (sent st') =
           length (sent st) + 1 + 2 * length (filter (\<lambda>(k, name). \<not> contains name ''PayPal'') accs)
       \<and> sleeps st' = sleeps st @ replicate (length accs) 5"
proof -
  let ?csv = "\<lambda>k. csv_name dest k (strftime sd) (strftime ed)"
  from export_all_Inr [OF assms(1,2)] obtain u r fs f where
    l: "export_loop e dest (strftime sd) (strftime ed) accs (map fst accs) f
          (st\<lparr>sent := sent st @ [GET (base_url @ u)]\<rparr>) = (Inr v, st')"
    by blast
  note c = export_loop_Inr [OF l]
  have sl: "sleeps st' = sleeps st @ replicate (length accs) 5" using c by simp
  have sn: "length (sent st') =
           length (sent st) + 1 + 2 * length (filter (\<lambda>(k, name). \<not> contains name ''PayPal'') accs)"
    using c length_filter_exported [OF assms(3)] by simp
  have wr: "\<forall>k\<in>set (map fst accs). exported accs k \<longrightarrow> files st' (?csv k) \<noteq> None"
    using c by blast
  have un: "\<forall>p. (\<forall>k\<in>set (map fst accs). exported accs k \<longrightarrow> p \<noteq> ?csv k) \<longrightarrow> files st' p = files st p"
    using c by simp
  have a: "files st' (?csv k) \<noteq> None" if "(k, name) \<in> set accs \<and> \<not> contains name ''PayPal''" for k name
  proof -
    have "exported accs k" using that exported_distinct [OF assms(3)] by blast
    moreover have "k \<in> set (map fst accs)" using that by force
    ultimately show ?thesis using wr by blast
  qed
  have b: "files st' (?csv k) = files st (?csv k)" if "(k, name) \<in> set accs \<and> contains name ''PayPal''" for k name
  proof -
    have "\<not> exported accs k" using that exported_distinct [OF assms(3)] by blast
    then have "\<forall>j\<in>set (map fst accs). exported accs j \<longrightarrow> ?csv k \<noteq> ?csv j"
      by (auto simp: csv_name_inj)
    then show ?thesis using un by blast
  qed
  have d: "\<exists>k name. (k, name) \<in> set accs \<and> \<not> contains name ''PayPal'' \<and> p = ?csv k"
    if "files st' p \<noteq> files st p" for p
  proof -
    from that un obtain k where "exported accs k" "p = ?csv k" by blast
    then show ?thesis using exported_member by blast
  qed
  have m: "(\<lambda>(k, name). ?csv k) = ?csv \<circ> fst"
    by (rule ext) (simp add: case_prod_beta)
  have "inj_on ?csv (set (map fst accs))"
    by (simp add: inj_on_def csv_name_inj)
  then have "distinct (map ?csv (map fst accs))"
    using assms(3) by (simp only: distinct_map)
  then have i: "distinct (map (\<lambda>(k, name). ?csv k) accs)"
    unfolding m by (simp only: map_map)
  from a b d i sn sl show ?thesis by blast
qed

theorem export_all_accounts_witness:
  "files (snd (get_all_banking_account_transactions fx_env (DateArg fx_jan) (DateArg fx_feb) ''out/'' fx_state))
      ''out/ac1_01.01.2020_to_01.02.2020.csv'' \<noteq> None
   \<and> files (snd (get_all_banking_account_transactions fx_env (DateArg fx_jan) (DateArg fx_feb) ''out/'' fx_state))
      ''out/ac2_01.01.2020_to_01.02.2020.csv'' = files fx_state ''out/ac2_01.01.2020_to_01.02.2020.csv''
   \<and> sleeps (snd (get_all_banking_account_transactions fx_env (DateArg fx_jan) (DateArg fx_feb) ''out/'' fx_state))
       = [5, 5, 5]"
proof -
  let ?run = "get_all_banking_account_transactions fx_env (DateArg fx_jan) (DateArg fx_feb) ''out/'' fx_state"
  let ?accs = "[(''1'', ''Girokonto''), (''2'', ''PayPal''), (''3'', ''Visa'')]"
  have "fst ?run = Inr ()" by code_simp
  then have r: "?run = (Inr (), snd ?run)" by (metis prod.collapse)
  have a: "accounts fx_state = Some ?accs" by (simp add: fx_state_def)
  have d: "distinct (map fst ?accs)" by simp
  note t = export_all_accounts [OF r a d]
  have n1: "csv_name ''out/'' ''1'' (strftime fx_jan) (strftime fx_feb) = ''out/ac1_01.01.2020_to_01.02.2020.csv''"
    by code_simp
  have n2: "csv_name ''out/'' ''2'' (strftime fx_jan) (strftime fx_feb) = ''out/ac2_01.01.2020_to_01.02.2020.csv''"
    by code_simp
  have m1: "(''1'', ''Girokonto'') \<in> set ?accs \<and> \<not> contains ''Girokonto'' ''PayPal''" by code_simp
  have m2: "(''2'', ''PayPal'') \<in> set ?accs \<and> contains ''PayPal'' ''PayPal''" by code_simp
  have k1: "files (snd ?run) (csv_name ''out/'' ''1'' (strftime fx_jan) (strftime fx_feb)) \<noteq> None"
    using t [THEN conjunct1, THEN spec, THEN spec, THEN mp, OF m1] .
  have k2: "files (snd ?run) (csv_name ''out/'' ''2'' (strftime fx_jan) (strftime fx_feb))
              = files fx_state (csv_name ''out/'' ''2'' (strftime fx_jan) (strftime fx_feb))"
    using t [THEN conjunct2, THEN conjunct1, THEN spec, THEN spec, THEN mp, OF m2] .
  have "sleeps (snd ?run) = sleeps fx_state @ replicate (length ?accs) 5"
    using t by blast
  moreover have "sleeps fx_state @ replicate (length ?accs) 5 = [5, 5, 5]"
    by code_simp
  ultimately have k3: "sleeps (snd ?run) = [5, 5, 5]" by simp
  from k1 k2 k3 show ?thesis unfolding n1 n2 by blast
qed

theorem export_all_pause_counterexample:
  "fst (get_all_banking_account_transactions fx_env (DateArg fx_jan) (DateArg fx_feb) ''out/'' fx_paypal_only)
     = Inr ()
   \<and> sent (snd (get_all_banking_account_transactions fx_env (DateArg fx_jan) (DateArg fx_feb) ''out/'' fx_paypal_only))
       = [GET ''https://www.dkb.de/umsatz'']
   \<and> files (snd (get_all_banking_account_transactions fx_env (DateArg fx_jan) (DateArg fx_feb) ''out/'' fx_paypal_only))
       ''out/ac2_01.01.2020_to_01.02.2020.csv'' = None
   \<and> sleeps fx_paypal_only = []
   \<and> sleeps (snd (get_all_banking_account_transactions fx_env (DateArg fx_jan) (DateArg fx_feb) ''out/'' fx_paypal_only))
       = [5]
   \<and> sleeps (snd (get_all_banking_account_transactions fx_env (DateArg fx_jan) (DateArg fx_feb) ''out/'' fx_state))
       = [5, 5, 5]"
  by code_simp




text \<open>
  C10. \<open>get_all_banking_account_transactions\<close> is not atomic across accounts. When
  the accounts before the \<open>k\<close>-th have been processed and the \<open>k\<close>-th raises, the
  whole run raises that error and ends there, and nothing is rolled back: every path
  but the \<open>k\<close>-th account's own file is as the accounts before left it, so the CSV file
  of every exported account before the \<open>k\<close>-th is on disk, unchanged.
\<close>

theorem export_all_not_atomic:
  assumes "umsatz_url st = Some u"
    and "http e (sent st) (GET (base_url @ u)) = Inr r"
    and "page_forms e (rtext r) = Inr fs"
    and "find_form ''slAllAccounts'' fs = Some f"
    and "accounts st = Some accs" and "distinct (map fst accs)"
    and "map fst accs = pre @ k # post"
    and "export_loop e dest (strftime sd) (strftime ed) accs pre f
           (st\<lparr>sent := sent st @ [GET (base_url @ u)]\<rparr>) = (Inr (), st1)"
    and "export_loop e dest (strftime sd) (strftime ed) accs (pre @ [k]) f
           (st\<lparr>sent := sent st @ [GET (base_url @ u)]\<rparr>) = (Inl err, st2)"
  shows "get_all_banking_account_transactions e (DateArg sd) (DateArg ed) dest st = (Inl err, st2)
       \<and> (\<forall>p. p \<noteq> csv_name dest k (strftime sd) (strftime ed) \<longrightarrow> files st2 p = files st1 p)
       \<and> (\<forall>j\<in>set pre. exported accs j \<longrightarrow>
            files st1 (csv_name dest j (strftime sd) (strftime ed)) \<noteq> None
            \<and> files st2 (csv_name dest j (strftime sd) (strftime ed))
                = files st1 (csv_name dest j (strftime sd) (strftime ed)))"
proof -
  let ?st0 = "st\<lparr>sent := sent st @ [GET (base_url @ u)]\<rparr>"
  let ?loop = "export_loop e dest (strftime sd) (strftime ed) accs"
  let ?csv = "\<lambda>j. csv_name dest j (strftime sd) (strftime ed)"
  have "?loop ((pre @ [k]) @ post) f ?st0 = (Inl err, st2)"
    using assms(9) by (rule export_loop_append_Inl)
  then have run: "get_all_banking_account_transactions e (DateArg sd) (DateArg ed) dest st = (Inl err, st2)"
    using export_all_fetched [OF assms(1-5), of sd ed dest] assms(7) by simp
  from export_loop_append_Inr [OF assms(8)] obtain f1 where
    "\<forall>ys. ?loop (pre @ ys) f ?st0 = ?loop ys f1 st1" by blast
  then have "?loop [k] f1 st1 = (Inl err, st2)" using assms(9) by simp
  then have same: "\<forall>p. p \<noteq> ?csv k \<longrightarrow> files st2 p = files st1 p"
    by (rule export_loop_single_Inl)
  have there: "\<forall>j\<in>set pre. exported accs j \<longrightarrow> files st1 (?csv j) \<noteq> None"
    using export_loop_Inr [OF assms(8)] by blast
  have "k \<notin> set pre" using assms(6,7) by auto
  then have "\<forall>j\<in>set pre. ?csv j \<noteq> ?csv k" by (auto simp: csv_name_inj)
  with same have kept: "\<forall>j\<in>set pre. files st2 (?csv j) = files st1 (?csv j)" by blast
  from run same there kept show ?thesis by blast
qed

theorem export_all_not_atomic_witness:
  "fst (get_all_banking_account_transactions fx_env (DateArg fx_jan) (DateArg fx_feb) ''out/'' fx_depot)
     = Inl TypeError
   \<and> files (snd (get_all_banking_account_transactions fx_env (DateArg fx_jan) (DateArg fx_feb) ''out/'' fx_depot))
       ''out/ac1_01.01.2020_to_01.02.2020.csv'' \<noteq> None"
proof -
  let ?accs = "[(''1'', ''Girokonto''), (''9'', ''Depot''), (''3'', ''Visa'')]"
  let ?r = "\<lparr>status_code = 200, rtext = ''<umsatz>''\<rparr>"
  let ?f = "\<lparr>action = Some ''/sel'',
             form_fields = [(''slAllAccounts'', []), (''searchPeriodRadio'', ''0''),
                            (''transactionDate'', []), (''toTransactionDate'', [])]\<rparr>"
  let ?st0 = "fx_depot\<lparr>sent := sent fx_depot @ [GET (base_url @ ''/umsatz'')]\<rparr>"
  let ?loop = "export_loop fx_env ''out/'' (strftime fx_jan) (strftime fx_feb) ?accs"
  have h1: "umsatz_url fx_depot = Some ''/umsatz''" by code_simp
  have h2: "http fx_env (sent fx_depot) (GET (base_url @ ''/umsatz'')) = Inr ?r" by code_simp
  have h3: "page_forms fx_env (rtext ?r) = Inr [?f]" by code_simp
  have h3': "find_form ''slAllAccounts'' [?f] = Some ?f" by code_simp
  have h4: "accounts fx_depot = Some ?accs" by code_simp
  have h4': "distinct (map fst ?accs)" by simp
  have h5: "map fst ?accs = [''1''] @ ''9'' # [''3'']" by simp
  have "fst (?loop [''1''] ?f ?st0) = Inr ()" by code_simp
  then have h6: "?loop [''1''] ?f ?st0 = (Inr (), snd (?loop [''1''] ?f ?st0))"
    by (metis prod.collapse)
  have "fst (?loop ([''1''] @ [''9'']) ?f ?st0) = Inl TypeError" by code_simp
  then have h7: "?loop ([''1''] @ [''9'']) ?f ?st0 = (Inl TypeError, snd (?loop ([''1''] @ [''9'']) ?f ?st0))"
    by (metis prod.collapse)
  note t = export_all_not_atomic [OF h1 h2 h3 h3' h4 h4' h5 h6 h7]
  have e1: "''1'' \<in> set [''1''] \<and> exported ?accs ''1''" by code_simp
  have n1: "csv_name ''out/'' ''1'' (strftime fx_jan) (strftime fx_feb) = ''out/ac1_01.01.2020_to_01.02.2020.csv''"
    by code_simp
  let ?run = "get_all_banking_account_transactions fx_env (DateArg fx_jan) (DateArg fx_feb) ''out/'' fx_depot"
  have run: "?run = (Inl TypeError, snd (?loop ([''1''] @ [''9'']) ?f ?st0))"
    using t by blast
  have "files (snd (?loop ([''1''] @ [''9'']) ?f ?st0)) (csv_name ''out/'' ''1'' (strftime fx_jan) (strftime fx_feb)) \<noteq> None"
    using t e1 by metis
  then show ?thesis unfolding run n1 by simp
qed

end
